theory Spec2Isabelle
  imports Complex_Main "HOL-Library.Word"
begin

section \<open>Go values used by the face detector package\<close>

type_synonym byte = "8 word"

text \<open>
  Go's \<open>int\<close> is modelled as an unbounded integer. Go's integer division truncates
  towards zero, HOL's \<open>div\<close> rounds down, so the quotient is written out.
\<close>

definition quot :: "int \<Rightarrow> int \<Rightarrow> int" where
  "quot a b = (if (a < 0) = (b < 0) then \<bar>a\<bar> div \<bar>b\<bar> else - (\<bar>a\<bar> div \<bar>b\<bar>))"

text \<open>
  A \<open>float32\<close> or \<open>float64\<close> value. The package only stores, passes on and compares
  floats, so a finite float is kept as the rational it denotes.
\<close>

datatype float = Finite rat | PosInf | NegInf | NaN

text \<open>Go's \<open>a > b\<close> on floats: false as soon as one side is NaN.\<close>

fun float_gt :: "float \<Rightarrow> float \<Rightarrow> bool" where
  "float_gt (Finite a) (Finite b) = (b < a)"
| "float_gt PosInf (Finite b) = True"
| "float_gt PosInf NegInf = True"
| "float_gt (Finite a) NegInf = True"
| "float_gt a b = False"

subsection \<open>Package \<open>image\<close>: points and rectangles\<close>

record Point =
  X :: int
  Y :: int

record Rectangle =
  MinP :: Point
  MaxP :: Point

definition Pt :: "int \<Rightarrow> int \<Rightarrow> Point" where
  "Pt x y = \<lparr>X = x, Y = y\<rparr>"

text \<open>
  \<open>image.Rect(x0, y0, x1, y1)\<close>: the rectangle with corners \<open>(x0, y0)\<close> and \<open>(x1, y1)\<close>,
  the coordinates swapped where needed so that the minimum is not above the maximum.
\<close>

definition image_Rect :: "int \<Rightarrow> int \<Rightarrow> int \<Rightarrow> int \<Rightarrow> Rectangle" where
  "image_Rect x0 y0 x1 y1 =
     \<lparr>MinP = Pt (if x0 > x1 then x1 else x0) (if y0 > y1 then y1 else y0),
      MaxP = Pt (if x0 > x1 then x0 else x1) (if y0 > y1 then y0 else y1)\<rparr>"

definition Dx :: "Rectangle \<Rightarrow> int" where
  "Dx r = X (MaxP r) - X (MinP r)"

definition Dy :: "Rectangle \<Rightarrow> int" where
  "Dy r = Y (MaxP r) - Y (MinP r)"

text \<open>\<open>r.Sub(p)\<close> translates the rectangle by \<open>-p\<close>.\<close>

definition Rect_Sub :: "Rectangle \<Rightarrow> Point \<Rightarrow> Rectangle" where
  "Rect_Sub r p =
     \<lparr>MinP = Pt (X (MinP r) - X p) (Y (MinP r) - Y p),
      MaxP = Pt (X (MaxP r) - X p) (Y (MaxP r) - Y p)\<rparr>"

subsection \<open>Package \<open>image\<close>: the image types the converter dispatches on\<close>

record NRGBA =
  Pix :: "byte list"
  Stride :: int
  Rect :: Rectangle

datatype YCbCrSubsampleRatio =
  Ratio444 | Ratio422 | Ratio420 | Ratio440 | Ratio411 | Ratio410

record YCbCr =
  YPlane :: "byte list"
  CbPlane :: "byte list"
  CrPlane :: "byte list"
  YStride :: int
  CStride :: int
  SubsampleRatio :: YCbCrSubsampleRatio
  YRect :: Rectangle

text \<open>
  Any other implementation of the interface \<open>image.Image\<close> is given by what the
  converter asks of it: its bounds and its method \<open>At\<close>, returning a colour of some
  type \<open>'c\<close>.
\<close>

record 'c AnyImage =
  AnyBounds :: Rectangle
  At :: "int \<Rightarrow> int \<Rightarrow> 'c"

datatype 'c Image =
  ImNRGBA NRGBA
| ImYCbCr YCbCr
| ImOther "'c AnyImage"

fun Bounds :: "'c Image \<Rightarrow> Rectangle" where
  "Bounds (ImNRGBA n) = Rect n"
| "Bounds (ImYCbCr y) = YRect y"
| "Bounds (ImOther a) = AnyBounds a"

text \<open>
  Images live in a store and are passed by address, as the Go pointers are: the
  converter either hands back the address it was given or allocates a new object.
  An address outside the store stands for the nil interface value.
\<close>

type_synonym addr = nat
type_synonym 'c heap = "'c Image list"

definition deref :: "'c heap \<Rightarrow> addr \<Rightarrow> 'c Image option" where
  "deref h p = (if p < length h then Some (h ! p) else None)"

definition alloc :: "'c heap \<Rightarrow> 'c Image \<Rightarrow> 'c heap \<times> addr" where
  "alloc h v = (h @ [v], length h)"

text \<open>
  A call either panics or returns. A Go \<open>error\<close> is a returned value: the path error
  of package \<open>os\<close> (operation and path), or whatever the cascade unpacker reports.
\<close>

datatype error = PathError string string | UnpackError string

datatype 'a outcome = Panic | Return 'a

fun bind_outcome :: "'a outcome \<Rightarrow> ('a \<Rightarrow> 'b outcome) \<Rightarrow> 'b outcome" where
  "bind_outcome Panic f = Panic"
| "bind_outcome (Return v) f = f v"

subsection \<open>Slices\<close>

text \<open>
  A byte slice is a list whose capacity is its length. Indexing and slicing outside
  it panic in Go; here they give \<open>None\<close>.
\<close>

definition index_at :: "'a list \<Rightarrow> int \<Rightarrow> 'a option" where
  "index_at xs i = (if 0 \<le> i \<and> i < int (length xs) then Some (xs ! nat i) else None)"

definition store_at :: "'a list \<Rightarrow> int \<Rightarrow> 'a \<Rightarrow> 'a list option" where
  "store_at xs i v = (if 0 \<le> i \<and> i < int (length xs) then Some (xs[nat i := v]) else None)"

definition slice :: "'a list \<Rightarrow> int \<Rightarrow> int \<Rightarrow> 'a list option" where
  "slice xs lo hi =
     (if 0 \<le> lo \<and> lo \<le> hi \<and> hi \<le> int (length xs)
      then Some (take (nat (hi - lo)) (drop (nat lo) xs)) else None)"

text \<open>
  \<open>copy(dst[dlo:dhi], src[slo:shi])\<close>: both slice expressions are evaluated (and may
  panic), then as many elements as the shorter one holds are copied.
\<close>

definition copy_slices :: "'a list \<Rightarrow> int \<Rightarrow> int \<Rightarrow> 'a list \<Rightarrow> int \<Rightarrow> int \<Rightarrow> 'a list option" where
  "copy_slices dst dlo dhi src slo shi =
     (case slice dst dlo dhi of
        None \<Rightarrow> None
      | Some d \<Rightarrow>
          (case slice src slo shi of
             None \<Rightarrow> None
           | Some s \<Rightarrow>
               let n = min (length d) (length s)
               in Some (take (nat dlo) dst @ take n s @ drop (nat dlo + n) dst)))"

text \<open>
  \<open>for i := 0; i < n; i++ { body }\<close> over a state, stopping at the first panic.
\<close>

definition for_count :: "int \<Rightarrow> (int \<Rightarrow> 's \<Rightarrow> 's option) \<Rightarrow> 's \<Rightarrow> 's option" where
  "for_count n body s =
     fold (\<lambda>i acc. Option.bind acc (body (int i))) [0..<nat n] (Some s)"

subsection \<open>Methods of the standard image types\<close>

definition PixOffset :: "NRGBA \<Rightarrow> int \<Rightarrow> int \<Rightarrow> int" where
  "PixOffset p x y = (y - Y (MinP (Rect p))) * Stride p + (x - X (MinP (Rect p))) * 4"

definition YOffset :: "YCbCr \<Rightarrow> int \<Rightarrow> int \<Rightarrow> int" where
  "YOffset p x y = (y - Y (MinP (YRect p))) * YStride p + (x - X (MinP (YRect p)))"

definition COffset :: "YCbCr \<Rightarrow> int \<Rightarrow> int \<Rightarrow> int" where
  "COffset p x y =
     (let mx = X (MinP (YRect p)); my = Y (MinP (YRect p)) in
      case SubsampleRatio p of
        Ratio422 \<Rightarrow> (y - my) * CStride p + (quot x 2 - quot mx 2)
      | Ratio420 \<Rightarrow> (quot y 2 - quot my 2) * CStride p + (quot x 2 - quot mx 2)
      | Ratio440 \<Rightarrow> (quot y 2 - quot my 2) * CStride p + (x - mx)
      | Ratio411 \<Rightarrow> (y - my) * CStride p + (quot x 4 - quot mx 4)
      | Ratio410 \<Rightarrow> (quot y 2 - quot my 2) * CStride p + (quot x 4 - quot mx 4)
      | Ratio444 \<Rightarrow> (y - my) * CStride p + (x - mx))"

text \<open>
  \<open>image.NewNRGBA(r)\<close> panics when the rectangle has a negative side or its buffer
  length \<open>4 * Dx * Dy\<close> does not fit a 64-bit \<open>int\<close>; else the buffer is zeroed.
\<close>

definition NewNRGBA :: "Rectangle \<Rightarrow> NRGBA option" where
  "NewNRGBA r =
     (if Dx r < 0 \<or> Dy r < 0 \<or> 4 * Dx r * Dy r \<ge> 2 ^ 63 then None
      else Some \<lparr>Pix = replicate (nat (4 * Dx r * Dy r)) 0, Stride = 4 * Dx r, Rect = r\<rparr>)"

subsection \<open>The drawing context of package \<open>gg\<close>\<close>

text \<open>
  A \<open>gg.Context\<close> is kept as its size and the drawing calls made on it, in order;
  what they rasterise to is the library's business. The integer arguments are
  those the code converts to \<open>float64\<close> at the call; an arc is always the full
  circle from 0 to \<open>2 * math.Pi\<close>, the line width always 2.0 and the stroke style
  always opaque red.
\<close>

datatype 'c draw_op =
  OpDrawImage "'c Image" int int
| OpDrawArc int int int
| OpDrawRectangle int int int int
| OpSetLineWidth
| OpSetStrokeStyle
| OpStroke

record 'c Context =
  ctx_width :: int
  ctx_height :: int
  ops :: "'c draw_op list"

definition NewContext :: "int \<Rightarrow> int \<Rightarrow> 'c Context" where
  "NewContext w h = \<lparr>ctx_width = w, ctx_height = h, ops = []\<rparr>"

definition draw :: "'c draw_op \<Rightarrow> 'c Context \<Rightarrow> 'c Context" where
  "draw op c = c\<lparr>ops := ops c @ [op]\<rparr>"

text \<open>
  The colour conversions of package \<open>image/color\<close> are parameters: \<open>YCbCrToRGB\<close> and
  \<open>NRGBAModel.Convert\<close> (followed by the read of the fields R, G, B, A). So are the
  two encoders, each giving the bytes it writes for the canvas of a context.
\<close>

record 'c stdlib =
  YCbCrToRGB :: "byte \<Rightarrow> byte \<Rightarrow> byte \<Rightarrow> byte \<times> byte \<times> byte"
  NRGBAModelConvert :: "'c \<Rightarrow> byte \<times> byte \<times> byte \<times> byte"
  jpeg_Encode :: "'c Context \<Rightarrow> byte list"
  png_Encode :: "'c Context \<Rightarrow> byte list"

text \<open>
  \<open>filepath.Ext\<close>: the suffix from the last dot of the last path element, empty
  when that element has no dot.
\<close>

fun ext_scan :: "string \<Rightarrow> string \<Rightarrow> string" where
  "ext_scan [] acc = []"
| "ext_scan (c # cs) acc =
     (if c = CHR ''/'' then [] else if c = CHR ''.'' then c # acc else ext_scan cs (c # acc))"

definition filepath_Ext :: "string \<Rightarrow> string" where
  "filepath_Ext path = ext_scan (rev path) []"

section \<open>\<open>ImgToNRGBA\<close>\<close>

text \<open>The four stores \<open>dst.Pix[di+0..3] = ...\<close> followed by \<open>di += 4\<close>.\<close>

definition put_pixel :: "byte list \<times> int \<Rightarrow> byte \<Rightarrow> byte \<Rightarrow> byte \<Rightarrow> byte \<Rightarrow> (byte list \<times> int) option" where
  "put_pixel st r g b a =
     (case st of (pix, di) \<Rightarrow>
        Option.bind (store_at pix (di + 0) r) (\<lambda>p1.
        Option.bind (store_at p1 (di + 1) g) (\<lambda>p2.
        Option.bind (store_at p2 (di + 2) b) (\<lambda>p3.
        Option.bind (store_at p3 (di + 3) a) (\<lambda>p4. Some (p4, di + 4))))))"

text \<open>
  Case \<open>*image.NRGBA\<close>: every row is copied as a whole; the inner loop repeats the
  same copy once per column.
\<close>

definition fill_from_NRGBA :: "NRGBA \<Rightarrow> Rectangle \<Rightarrow> NRGBA \<Rightarrow> NRGBA option" where
  "fill_from_NRGBA src srcBounds dst =
     (let srcMinX = X (MinP srcBounds); srcMinY = Y (MinP srcBounds);
          dstW = Dx (Rect dst); dstH = Dy (Rect dst);
          rowSize = Dx srcBounds * 4
      in map_option (\<lambda>pix. dst\<lparr>Pix := pix\<rparr>)
           (for_count dstH (\<lambda>dstY pix0.
              let di = PixOffset dst 0 dstY;
                  si = PixOffset src srcMinX (srcMinY + dstY)
              in for_count dstW (\<lambda>dstX pix.
                   copy_slices pix di (di + rowSize) (Pix src) si (si + rowSize)) pix0)
            (Pix dst)))"

text \<open>Case \<open>*image.YCbCr\<close>: pixel by pixel through \<open>color.YCbCrToRGB\<close>, alpha 255.\<close>

definition fill_from_YCbCr :: "'c stdlib \<Rightarrow> YCbCr \<Rightarrow> Rectangle \<Rightarrow> NRGBA \<Rightarrow> NRGBA option" where
  "fill_from_YCbCr lib src srcBounds dst =
     (let srcMinX = X (MinP srcBounds); srcMinY = Y (MinP srcBounds);
          dstW = Dx (Rect dst); dstH = Dy (Rect dst)
      in map_option (\<lambda>pix. dst\<lparr>Pix := pix\<rparr>)
           (for_count dstH (\<lambda>dstY pix0.
              map_option fst
                (for_count dstW (\<lambda>dstX st.
                   let srcX = srcMinX + dstX; srcY = srcMinY + dstY;
                       siy = YOffset src srcX srcY; sic = COffset src srcX srcY
                   in Option.bind (index_at (YPlane src) siy) (\<lambda>yy.
                      Option.bind (index_at (CbPlane src) sic) (\<lambda>cb.
                      Option.bind (index_at (CrPlane src) sic) (\<lambda>cr.
                        case YCbCrToRGB lib yy cb cr of (r, g, b) \<Rightarrow>
                          put_pixel st r g b 255))))
                 (pix0, PixOffset dst 0 dstY)))
            (Pix dst)))"

text \<open>Every other image type: pixel by pixel through \<open>At\<close> and the NRGBA colour model.\<close>

definition fill_from_other :: "'c stdlib \<Rightarrow> 'c AnyImage \<Rightarrow> Rectangle \<Rightarrow> NRGBA \<Rightarrow> NRGBA option" where
  "fill_from_other lib img srcBounds dst =
     (let srcMinX = X (MinP srcBounds); srcMinY = Y (MinP srcBounds);
          dstW = Dx (Rect dst); dstH = Dy (Rect dst)
      in map_option (\<lambda>pix. dst\<lparr>Pix := pix\<rparr>)
           (for_count dstH (\<lambda>dstY pix0.
              map_option fst
                (for_count dstW (\<lambda>dstX st.
                   case NRGBAModelConvert lib (At img (srcMinX + dstX) (srcMinY + dstY)) of
                     (r, g, b, a) \<Rightarrow> put_pixel st r g b a)
                 (pix0, PixOffset dst 0 dstY)))
            (Pix dst)))"

fun is_NRGBA :: "'c Image \<Rightarrow> bool" where
  "is_NRGBA (ImNRGBA n) = True"
| "is_NRGBA other = False"

text \<open>
  \<open>ImgToNRGBA(img)\<close>. An NRGBA image whose bounds start at the origin is returned as
  it is (the same pointer). Otherwise a new NRGBA image over the translated bounds
  is allocated, filled according to the dynamic type of \<open>img\<close>, and returned.
\<close>

definition ImgToNRGBA :: "'c stdlib \<Rightarrow> 'c heap \<Rightarrow> addr \<Rightarrow> ('c heap \<times> addr) outcome" where
  "ImgToNRGBA lib h img =
     (case deref h img of
        None \<Rightarrow> Panic
      | Some im \<Rightarrow>
          let srcBounds = Bounds im in
          if X (MinP srcBounds) = 0 \<and> Y (MinP srcBounds) = 0 \<and> is_NRGBA im then Return (h, img)
          else
            let dstBounds = Rect_Sub srcBounds (MinP srcBounds) in
            (case NewNRGBA dstBounds of
               None \<Rightarrow> Panic
             | Some dst \<Rightarrow>
                 (case (case im of
                          ImNRGBA src \<Rightarrow> fill_from_NRGBA src srcBounds dst
                        | ImYCbCr src \<Rightarrow> fill_from_YCbCr lib src srcBounds dst
                        | ImOther src \<Rightarrow> fill_from_other lib src srcBounds dst) of
                    None \<Rightarrow> Panic
                  | Some dst' \<Rightarrow> Return (alloc h (ImNRGBA dst')))))"

text \<open>
  What it takes for the converter to read every pixel it asks for. The bounds have
  no negative side and the new buffer fits an \<open>int\<close>. An NRGBA source with pixels
  has a stride that is not negative and a buffer reaching to the end of its last
  row. A YCbCr source has, for every point of its bounds, its luma and chroma
  offsets inside the three planes. Of any other image nothing more is asked.
\<close>

definition samples_in_range :: "YCbCr \<Rightarrow> bool" where
  "samples_in_range src \<longleftrightarrow>
     list_all (\<lambda>dy. list_all (\<lambda>dx.
         let sx = X (MinP (YRect src)) + int dx; sy = Y (MinP (YRect src)) + int dy in
           0 \<le> YOffset src sx sy \<and> YOffset src sx sy < int (length (YPlane src))
         \<and> 0 \<le> COffset src sx sy \<and> COffset src sx sy < int (length (CbPlane src))
         \<and> COffset src sx sy < int (length (CrPlane src)))
       [0..<nat (Dx (YRect src))])
     [0..<nat (Dy (YRect src))]"

definition readable :: "'c Image \<Rightarrow> bool" where
  "readable im \<longleftrightarrow>
     0 \<le> Dx (Bounds im) \<and> 0 \<le> Dy (Bounds im) \<and> 4 * Dx (Bounds im) * Dy (Bounds im) < 2 ^ 63
     \<and> (case im of
           ImNRGBA src \<Rightarrow>
             Dx (Rect src) = 0 \<or> Dy (Rect src) = 0
             \<or> (0 \<le> Stride src
                 \<and> (Dy (Rect src) - 1) * Stride src + 4 * Dx (Rect src) \<le> int (length (Pix src)))
         | ImYCbCr src \<Rightarrow> samples_in_range src
         | ImOther src \<Rightarrow> True)"

section \<open>The face detector\<close>

record Detection =
  Row :: int
  Col :: int
  Scale :: int
  Q :: float

record ImageParams =
  Pixels :: "byte list"
  Rows :: int
  Cols :: int
  Dim :: int

record CascadeParams =
  MinSize :: int
  MaxSize :: int
  ShiftFactor :: float
  ScaleFactor :: float
  ImageParams :: ImageParams

record faceDetector =
  angle :: float
  cascadeFile :: string
  destination :: string
  minSize :: int
  maxSize :: int
  shiftFactor :: float
  scaleFactor :: float
  iouThreshold :: float

definition NewFaceDetector ::
  "string \<Rightarrow> string \<Rightarrow> int \<Rightarrow> int \<Rightarrow> float \<Rightarrow> float \<Rightarrow> float \<Rightarrow> float \<Rightarrow> faceDetector" where
  "NewFaceDetector dest cf minS maxS shf scf iou ang =
     \<lparr>angle = ang, cascadeFile = cf, destination = dest, minSize = minS, maxSize = maxS,
      shiftFactor = shf, scaleFactor = scf, iouThreshold = iou\<rparr>"

text \<open>
  The functions of the package that \<open>DetectFaces\<close> calls and whose bodies are in
  another file are parameters: the grayscale conversion, the cascade unpacker
  (\<open>NewPigo().Unpack\<close>, giving a classifier of some type \<open>'m\<close> or an error), the
  classifier's \<open>RunCascade\<close> and its \<open>ClusterDetections\<close>. The last two return a
  detection slice and nothing else.
\<close>

record 'm core =
  RgbToGrayscale :: "NRGBA \<Rightarrow> byte list"
  Unpack :: "byte list \<Rightarrow> error + 'm"
  RunCascade :: "'m \<Rightarrow> CascadeParams \<Rightarrow> float \<Rightarrow> Detection list"
  ClusterDetections :: "'m \<Rightarrow> Detection list \<Rightarrow> float \<Rightarrow> Detection list"

text \<open>
  What a caller can observe: the images it holds, the package-level variable \<open>dc\<close>
  (nil until first assigned), the files by path, and whether
  \<open>os.OpenFile(path, O_CREATE|O_RDWR, 0755)\<close> succeeds on a path.
\<close>

record 'c world =
  heap :: "'c heap"
  dc :: "'c Context option"
  files :: "string \<rightharpoonup> byte list"
  can_open :: "string \<Rightarrow> bool"

text \<open>\<open>ioutil.ReadFile\<close>.\<close>

definition ReadFile :: "'c world \<Rightarrow> string \<Rightarrow> error + byte list" where
  "ReadFile w path =
     (case files w path of None \<Rightarrow> Inl (PathError ''open'' path) | Some bs \<Rightarrow> Inr bs)"

text \<open>The composite literal \<open>CascadeParams{...}\<close> of \<open>DetectFaces\<close>.\<close>

definition cParams_of :: "faceDetector \<Rightarrow> byte list \<Rightarrow> int \<Rightarrow> int \<Rightarrow> CascadeParams" where
  "cParams_of fd pixels rows cols =
     \<lparr>MinSize = minSize fd, MaxSize = maxSize fd,
      ShiftFactor = shiftFactor fd, ScaleFactor = scaleFactor fd,
      ImageParams = \<lparr>Pixels = pixels, Rows = rows, Cols = cols, Dim = cols\<rparr>\<rparr>"

text \<open>
  \<open>DetectFaces\<close>, statement by statement: normalise the image, convert it to
  grayscale, take the size from the maximum corner of the source bounds, assign a
  new context holding the source image to \<open>dc\<close>, read the cascade file, unpack
  it, run the cascade, cluster, return.
\<close>

definition DetectFaces ::
  "'m core \<Rightarrow> 'c stdlib \<Rightarrow> 'c world \<Rightarrow> faceDetector \<Rightarrow> addr
     \<Rightarrow> 'c world \<times> (error + Detection list) outcome" where
  "DetectFaces core lib w fd src =
     (case ImgToNRGBA lib (heap w) src of
        Panic \<Rightarrow> (w, Panic)
      | Return (h1, res) \<Rightarrow>
          (case (deref h1 res, deref h1 src) of
             (Some (ImNRGBA resImg), Some srcImg) \<Rightarrow>
               let pixels = RgbToGrayscale core resImg;
                   cols = X (MaxP (Bounds srcImg));
                   rows = Y (MaxP (Bounds srcImg));
                   w1 = w\<lparr>heap := h1,
                          dc := Some (draw (OpDrawImage srcImg 0 0) (NewContext cols rows))\<rparr>;
                   cParams = cParams_of fd pixels rows cols
               in (case ReadFile w1 (cascadeFile fd) of
                     Inl err \<Rightarrow> (w1, Return (Inl err))
                   | Inr cascade \<Rightarrow>
                       (case Unpack core cascade of
                          Inl err \<Rightarrow> (w1, Return (Inl err))
                        | Inr classifier \<Rightarrow>
                            let faces = RunCascade core classifier cParams (angle fd);
                                faces' = ClusterDetections core classifier faces (iouThreshold fd)
                            in (w1, Return (Inr faces'))))
           | other \<Rightarrow> (w, Panic)))"

subsection \<open>\<open>DrawFaces\<close>\<close>

definition qThresh :: float where
  "qThresh = Finite 5"

text \<open>The rectangle appended for a face.\<close>

definition face_rect :: "Detection \<Rightarrow> Rectangle" where
  "face_rect face =
     image_Rect (Col face - quot (Scale face) 2) (Row face - quot (Scale face) 2)
                (Scale face) (Scale face)"

text \<open>The calls made on \<open>dc\<close> for a face that passes the test, in order.\<close>

definition marker_ops :: "bool \<Rightarrow> Detection \<Rightarrow> 'c draw_op list" where
  "marker_ops isCircle face =
     [if isCircle then OpDrawArc (Col face) (Row face) (quot (Scale face) 2)
      else OpDrawRectangle (Col face - quot (Scale face) 2) (Row face - quot (Scale face) 2)
                           (Scale face) (Scale face),
      OpSetLineWidth, OpSetStrokeStyle, OpStroke]"

text \<open>One iteration of \<open>for _, face := range faces\<close> on the context and \<open>rects\<close>.\<close>

definition draw_face ::
  "bool \<Rightarrow> Detection \<Rightarrow> 'c Context \<times> Rectangle list \<Rightarrow> 'c Context \<times> Rectangle list" where
  "draw_face isCircle face st =
     (case st of (ctx, rects) \<Rightarrow>
        if float_gt (Q face) qThresh then
          let ctx1 = (if isCircle
                      then draw (OpDrawArc (Col face) (Row face) (quot (Scale face) 2)) ctx
                      else draw (OpDrawRectangle (Col face - quot (Scale face) 2)
                                   (Row face - quot (Scale face) 2) (Scale face) (Scale face)) ctx);
              rects1 = rects @ [face_rect face];
              ctx2 = draw OpSetLineWidth ctx1;
              ctx3 = draw OpSetStrokeStyle ctx2;
              ctx4 = draw OpStroke ctx3
          in (ctx4, rects1)
        else (ctx, rects))"

definition draw_loop ::
  "bool \<Rightarrow> Detection list \<Rightarrow> 'c Context \<Rightarrow> 'c Context \<times> Rectangle list" where
  "draw_loop isCircle faces ctx = fold (draw_face isCircle) faces (ctx, [])"

text \<open>
  \<open>DrawFaces\<close>. Every use of \<open>dc\<close> dereferences it, so a nil \<open>dc\<close> panics (at the
  first marker, or at \<open>dc.Image()\<close> when no face passes). After the loop the
  destination is opened without truncation; when that fails the function returns
  \<open>(nil, nil, err)\<close>. Else the canvas is encoded by extension over the start of
  the file, the file is read back and returned with \<open>rects\<close>.
\<close>

definition DrawFaces ::
  "'c stdlib \<Rightarrow> 'c world \<Rightarrow> faceDetector \<Rightarrow> Detection list \<Rightarrow> bool
     \<Rightarrow> 'c world \<times> (byte list \<times> Rectangle list \<times> error option) outcome" where
  "DrawFaces lib w fd faces isCircle =
     (case dc w of
        None \<Rightarrow> (w, Panic)
      | Some ctx0 \<Rightarrow>
          (case draw_loop isCircle faces ctx0 of (ctx, rects) \<Rightarrow>
             let w1 = w\<lparr>dc := Some ctx\<rparr> in
             if \<not> can_open w1 (destination fd)
             then (w1, Return ([], [], Some (PathError ''open'' (destination fd))))
             else
               let old = (case files w1 (destination fd) of None \<Rightarrow> [] | Some bs \<Rightarrow> bs);
                   ext = filepath_Ext (destination fd);
                   written = (if ext = ''.jpg'' \<or> ext = ''.jpeg'' then jpeg_Encode lib ctx
                              else if ext = ''.png'' then png_Encode lib ctx
                              else []);
                   w2 = w1\<lparr>files := (files w1)(destination fd \<mapsto> written @ drop (length written) old)\<rparr>
               in (case ReadFile w2 (destination fd) of
                     Inl err \<Rightarrow> (w2, Return ([], rects, Some err))
                   | Inr rf \<Rightarrow> (w2, Return (rf, rects, None)))))"

section \<open>The detection core, from the specification\<close>

subsection \<open>The cascade deserializer\<close>

text \<open>
  Modelled from the spec: the two error kinds of the deserializer (section 7); the
  package's deserializer is in a file that is not part of the sources.
\<close>

datatype parse_error = TruncatedStream | InvalidShape

text \<open>
  Modelled from the spec: the Cascade Model that \<open>parse_cascade\<close> (\<open>Unpack\<close>)
  builds; the type is declared in a file that is not part of the sources. Per
  tree: the internal nodes as 4-tuples of signed bytes, the leaf predictions and
  the stage threshold as the 32 bits read from the stream.
\<close>

record cascade_tree =
  nodes :: "(byte \<times> byte \<times> byte \<times> byte) list"
  leaves :: "32 word list"
  threshold :: "32 word"

record cascade_model =
  tree_depth :: nat
  tree_count :: nat
  trees :: "cascade_tree list"

text \<open>
  Modelled from the spec: the bounded reads of the deserializer over its buffer.
  Reading \<open>n\<close> bytes off the front of the stream, if it has them; a little-endian
  32-bit field; a node's four offsets; a run of \<open>k\<close> fields of one kind; a tree
  (its \<open>2^depth - 1\<close> nodes, its \<open>2^depth\<close> leaves, its threshold).
\<close>

definition read_bytes :: "nat \<Rightarrow> byte list \<Rightarrow> (byte list \<times> byte list) option" where
  "read_bytes n bs = (if length bs < n then None else Some (take n bs, drop n bs))"

definition le32 :: "byte list \<Rightarrow> 32 word" where
  "le32 bs = word_of_nat (foldr (\<lambda>b acc. unat b + 256 * acc) bs 0)"

definition read_word32 :: "byte list \<Rightarrow> (32 word \<times> byte list) option" where
  "read_word32 bs = map_option (\<lambda>(f, rest). (le32 f, rest)) (read_bytes 4 bs)"

definition read_node :: "byte list \<Rightarrow> ((byte \<times> byte \<times> byte \<times> byte) \<times> byte list) option" where
  "read_node bs =
     map_option (\<lambda>(f, rest). ((f ! 0, f ! 1, f ! 2, f ! 3), rest)) (read_bytes 4 bs)"

fun read_many :: "nat \<Rightarrow> (byte list \<Rightarrow> ('a \<times> byte list) option) \<Rightarrow> byte list
                    \<Rightarrow> ('a list \<times> byte list) option" where
  "read_many 0 rd bs = Some ([], bs)"
| "read_many (Suc k) rd bs =
     (case rd bs of
        None \<Rightarrow> None
      | Some (v, rest) \<Rightarrow>
          (case read_many k rd rest of
             None \<Rightarrow> None
           | Some (vs, rest') \<Rightarrow> Some (v # vs, rest')))"

definition read_tree :: "nat \<Rightarrow> byte list \<Rightarrow> (cascade_tree \<times> byte list) option" where
  "read_tree depth bs =
     (case read_many (2 ^ depth - 1) read_node bs of
        None \<Rightarrow> None
      | Some (ns, r1) \<Rightarrow>
          (case read_many (2 ^ depth) read_word32 r1 of
             None \<Rightarrow> None
           | Some (ls, r2) \<Rightarrow>
               (case read_word32 r2 of
                  None \<Rightarrow> None
                | Some (th, r3) \<Rightarrow> Some (\<lparr>nodes = ns, leaves = ls, threshold = th\<rparr>, r3))))"

text \<open>
  Modelled from the spec: \<open>parse_cascade\<close>, the deserializer of section 4.A
  (\<open>Unpack\<close> in the package; its body is in a file that is not part of the sources).
  Eight reserved bytes, \<open>tree_depth\<close> and \<open>tree_count\<close> as little-endian signed
  32-bit integers, then the trees. The shape is checked once the header has been
  read and before any tree is. The safety ceiling on the depth is
  implementation-defined in the spec and is a parameter here.
\<close>

definition parse_cascade :: "int \<Rightarrow> byte list \<Rightarrow> parse_error + cascade_model" where
  "parse_cascade max_depth bs =
     (case read_bytes 8 bs of
        None \<Rightarrow> Inl TruncatedStream
      | Some (magic, r1) \<Rightarrow>
          (case read_word32 r1 of
             None \<Rightarrow> Inl TruncatedStream
           | Some (dw, r2) \<Rightarrow>
               (case read_word32 r2 of
                  None \<Rightarrow> Inl TruncatedStream
                | Some (nw, r3) \<Rightarrow>
                    if sint dw \<le> 0 \<or> sint nw \<le> 0 \<or> sint dw > max_depth then Inl InvalidShape
                    else
                      (case read_many (nat (sint nw)) (read_tree (nat (sint dw))) r3 of
                         None \<Rightarrow> Inl TruncatedStream
                       | Some (ts, rest) \<Rightarrow>
                           Inr \<lparr>tree_depth = nat (sint dw), tree_count = nat (sint nw),
                                trees = ts\<rparr>))))"

text \<open>
  Modelled from the spec: what the header of a stream declares (offsets 8 and 12
  of the layout table), and the bytes one tree of a given depth takes.
\<close>

definition header_depth :: "byte list \<Rightarrow> int" where
  "header_depth bs = sint (le32 (take 4 (drop 8 bs)))"

definition header_count :: "byte list \<Rightarrow> int" where
  "header_count bs = sint (le32 (take 4 (drop 12 bs)))"

definition tree_bytes :: "nat \<Rightarrow> nat" where
  "tree_bytes depth = (2 ^ depth - 1) * 4 + 2 ^ depth * 4 + 4"

text \<open>
  Modelled from the spec: a reader of a field of fixed size \<open>k\<close>: it fails exactly
  on streams shorter than \<open>k\<close> and else leaves the stream without its first \<open>k\<close>
  bytes.
\<close>

definition fixed_reader :: "nat \<Rightarrow> (byte list \<Rightarrow> ('a \<times> byte list) option) \<Rightarrow> bool" where
  "fixed_reader k rd \<longleftrightarrow>
     (\<forall>bs. (rd bs = None \<longleftrightarrow> length bs < k)
         \<and> (\<forall>v r. rd bs = Some (v, r) \<longrightarrow> r = drop k bs))"

subsection \<open>The sweep\<close>

text \<open>
  Modelled from the spec: a Detection and the Cascade Parameters of section 3 (the
  types are declared in a file that is not part of the sources). Scores and the
  two factors are kept as the rationals the spec's formulas compute with.
\<close>

record detection =
  row :: int
  col :: int
  scale :: int
  q :: rat

record cascade_params =
  min_size :: int
  max_size :: int
  shift_factor :: rat
  scale_factor :: rat

text \<open>Modelled from the spec: the invariants I1 and I2 on the parameters.\<close>

definition params_ok :: "cascade_params \<Rightarrow> bool" where
  "params_ok p \<longleftrightarrow>
     0 < min_size p \<and> min_size p \<le> max_size p \<and> 1 < scale_factor p
     \<and> 0 < shift_factor p \<and> shift_factor p \<le> 1"

text \<open>Modelled from the spec: \<open>step = max(1, floor(s * shift_factor))\<close>.\<close>

definition step_of :: "cascade_params \<Rightarrow> int \<Rightarrow> int" where
  "step_of p s = max 1 \<lfloor>of_int s * shift_factor p\<rfloor>"

text \<open>
  Modelled from the spec: \<open>s = floor(s * scale_factor)\<close>; if the new \<open>s\<close> equals the
  old one, add 1.
\<close>

definition next_scale :: "cascade_params \<Rightarrow> int \<Rightarrow> int" where
  "next_scale p s = (let s' = \<lfloor>of_int s * scale_factor p\<rfloor> in if s' = s then s + 1 else s')"

text \<open>
  Modelled from the spec: the values of \<open>for x = lo to hi, stepping by step\<close>,
  both ends included. The
  step is at least 1 wherever the sweep calls this; a smaller one gives no value.
\<close>

function positions :: "int \<Rightarrow> int \<Rightarrow> int \<Rightarrow> int list" where
  "positions step lo hi = (if step < 1 \<or> hi < lo then [] else lo # positions step (lo + step) hi)"
  by pat_completeness auto
termination
  by (relation "measure (\<lambda>(step, lo, hi). nat (hi - lo + 1))") auto

declare positions.simps [simp del]

text \<open>
  Modelled from the spec: one pass of the scale loop: rows from \<open>s/2\<close> to \<open>rows - s/2\<close>, columns from \<open>s/2\<close>
  to \<open>cols - s/2\<close>, a detection wherever the classifier returns a score.
\<close>

definition sweep_scale ::
  "(int \<Rightarrow> int \<Rightarrow> int \<Rightarrow> rat option) \<Rightarrow> cascade_params \<Rightarrow> int \<Rightarrow> int \<Rightarrow> int \<Rightarrow> detection list" where
  "sweep_scale classify p rows cols s =
     concat (map (\<lambda>r.
       concat (map (\<lambda>c.
         case classify r c s of
           None \<Rightarrow> []
         | Some v \<Rightarrow> [\<lparr>row = r, col = c, scale = s, q = v\<rparr>])
         (positions (step_of p s) (s div 2) (cols - s div 2))))
       (positions (step_of p s) (s div 2) (rows - s div 2)))"

text \<open>
  Modelled from the spec: \<open>while s \<le> max_size\<close>, collecting the detections of
  each pass in traversal order. The loop need not end for parameters outside I1
  and I2, so not returning is the value \<open>None\<close>.
\<close>

partial_function (option) scale_loop ::
  "(int \<Rightarrow> int \<Rightarrow> int \<Rightarrow> rat option) \<Rightarrow> cascade_params \<Rightarrow> int \<Rightarrow> int \<Rightarrow> int \<Rightarrow> detection list
     \<Rightarrow> detection list option" where
  "scale_loop classify p rows cols s acc =
     (if s \<le> max_size p
      then scale_loop classify p rows cols (next_scale p s) (acc @ sweep_scale classify p rows cols s)
      else Some acc)"

text \<open>
  Modelled from the spec: \<open>run_cascade\<close>, the Sweep of section 4.C (\<open>RunCascade\<close> in
  the package; its body is in a file that is not part of the sources). The
  Window Classifier of section 4.B, with the model, the image and the angle it
  reads, is the parameter \<open>classify\<close>: from a centre \<open>(r, c)\<close> and a window side
  \<open>s\<close> to a score or a rejection.
\<close>

definition run_cascade ::
  "(int \<Rightarrow> int \<Rightarrow> int \<Rightarrow> rat option) \<Rightarrow> cascade_params \<Rightarrow> int \<Rightarrow> int \<Rightarrow> detection list option" where
  "run_cascade classify p rows cols = scale_loop classify p rows cols (min_size p) []"

text \<open>
  Modelled from the spec: what the loop bounds say of a detection: a scale within the size range, and a
  centre at least half a window from the top and left edges and from the lines
  \<open>rows\<close> and \<open>cols\<close>.
\<close>

definition in_window :: "cascade_params \<Rightarrow> int \<Rightarrow> int \<Rightarrow> detection \<Rightarrow> bool" where
  "in_window p rows cols d \<longleftrightarrow>
     min_size p \<le> scale d \<and> scale d \<le> max_size p
     \<and> scale d div 2 \<le> row d \<and> row d \<le> rows - scale d div 2
     \<and> scale d div 2 \<le> col d \<and> col d \<le> cols - scale d div 2"

subsection \<open>The clusterer\<close>

text \<open>
  Modelled from the spec: \<open>iou_threshold\<close> outside [0, 1] is treated as the nearest
  endpoint.
\<close>

definition clamp01 :: "rat \<Rightarrow> rat" where
  "clamp01 t = max 0 (min 1 t)"

text \<open>
  Modelled from the spec: the IoU of two axis-aligned squares given by centre and
  side, as the formula block of section 4.C writes it (the function is in a file
  that is not part of the sources); 0 when the union is 0.
\<close>

definition iou :: "detection \<Rightarrow> detection \<Rightarrow> rat" where
  "iou a b =
     (let ha = of_int (scale a) / 2; hb = of_int (scale b) / 2;
          lft = max (of_int (col a) - ha) (of_int (col b) - hb);
          rgt = min (of_int (col a) + ha) (of_int (col b) + hb);
          upr = max (of_int (row a) - ha) (of_int (row b) - hb);
          lwr = min (of_int (row a) + ha) (of_int (row b) + hb);
          inter = max 0 (rgt - lft) * max 0 (lwr - upr);
          uni = of_int (scale a) * of_int (scale a) + of_int (scale b) * of_int (scale b) - inter
      in if uni = 0 then 0 else inter / uni)"

text \<open>
  Modelled from the spec: two detections are joined iff their IoU is strictly
  greater than the threshold.
\<close>

definition joined :: "rat \<Rightarrow> detection \<Rightarrow> detection \<Rightarrow> bool" where
  "joined t a b \<longleftrightarrow> clamp01 t < iou a b"

text \<open>
  Modelled from the spec: the union-find partition, as one label per detection: a detection starts with
  its own index, and joining two detections gives the members of both groups the
  smaller of the two labels. A group's label is thus its minimum index.
\<close>

definition union_labels :: "nat \<Rightarrow> nat \<Rightarrow> nat list \<Rightarrow> nat list" where
  "union_labels i j ls =
     (let a = ls ! i; b = ls ! j in map (\<lambda>l. if l = max a b then min a b else l) ls)"

definition index_pairs :: "nat \<Rightarrow> (nat \<times> nat) list" where
  "index_pairs n = concat (map (\<lambda>i. map (\<lambda>j. (i, j)) [Suc i..<n]) [0..<n])"

definition link :: "rat \<Rightarrow> detection list \<Rightarrow> nat \<times> nat \<Rightarrow> nat list \<Rightarrow> nat list" where
  "link t ds ij ls =
     (case ij of (i, j) \<Rightarrow> if joined t (ds ! i) (ds ! j) then union_labels i j ls else ls)"

definition components :: "rat \<Rightarrow> detection list \<Rightarrow> nat list" where
  "components t ds = fold (link t ds) (index_pairs (length ds)) [0..<length ds]"

text \<open>
  Modelled from the spec: the representative of a group: score-weighted means of row, column and scale
  and the summed score. A Detection holds integers, so each mean is cut to its
  integer part. The spec leaves a group of total score 0 open; the quotient is
  then HOL's, 0.
\<close>

definition trunc :: "rat \<Rightarrow> int" where
  "trunc x = (if x < 0 then \<lceil>x\<rceil> else \<lfloor>x\<rfloor>)"

definition representative :: "detection list \<Rightarrow> detection" where
  "representative ms =
     (let w = sum_list (map q ms) in
      \<lparr>row = trunc (sum_list (map (\<lambda>d. q d * of_int (row d)) ms) / w),
       col = trunc (sum_list (map (\<lambda>d. q d * of_int (col d)) ms) / w),
       scale = trunc (sum_list (map (\<lambda>d. q d * of_int (scale d)) ms) / w),
       q = w\<rparr>)"

text \<open>
  Modelled from the spec: \<open>cluster\<close>, the Clusterer of section 4.C
  (\<open>ClusterDetections\<close> in the package; its body is in a file that is not part of
  the sources). One representative per group, in the order of the groups'
  minimum indices.
\<close>

definition cluster :: "detection list \<Rightarrow> rat \<Rightarrow> detection list" where
  "cluster ds t =
     (let ls = components t ds in
      map (\<lambda>k. representative (map (\<lambda>j. ds ! j) (filter (\<lambda>j. ls ! j = k) [0..<length ds])))
          (filter (\<lambda>k. ls ! k = k) [0..<length ds]))"

text \<open>
  Modelled from the spec: no two detections of the list are joined (invariant I5
  in its first form).
\<close>

definition separated :: "rat \<Rightarrow> detection list \<Rightarrow> bool" where
  "separated t ds \<longleftrightarrow>
     (\<forall>ij \<in> set (index_pairs (length ds)). \<not> joined t (ds ! fst ij) (ds ! snd ij))"

section \<open>Example values\<close>

text \<open>
  Small concrete inputs at which the theorems below are instantiated: stand-ins for
  the library and for the functions kept as parameters (an unpacker that accepts
  the one-byte cascade \<open>[1]\<close> only, a sweep that finds nothing, a clusterer that
  returns its input), a one-pixel image, a detector and a world holding them.
\<close>

abbreviation (input) lib0 :: "unit stdlib" where
  "lib0 \<equiv> \<lparr>YCbCrToRGB = (\<lambda>y cb cr. (y, cb, cr)), NRGBAModelConvert = (\<lambda>c. (0, 0, 0, 0)),
           jpeg_Encode = (\<lambda>c. [74]), png_Encode = (\<lambda>c. [80])\<rparr>"

abbreviation (input) core0 :: "unit core" where
  "core0 \<equiv> \<lparr>RgbToGrayscale = (\<lambda>n. []),
            Unpack = (\<lambda>bs. if bs = [1] then Inr () else Inl (UnpackError ''bad cascade'')),
            RunCascade = (\<lambda>m p a. []), ClusterDetections = (\<lambda>m ds t. ds)\<rparr>"

abbreviation (input) nrgba0 :: NRGBA where
  "nrgba0 \<equiv> \<lparr>Pix = [0, 0, 0, 255], Stride = 4, Rect = image_Rect 0 0 1 1\<rparr>"

abbreviation (input) img0 :: "unit Image" where
  "img0 \<equiv> ImNRGBA nrgba0"

abbreviation (input) fd0 :: faceDetector where
  "fd0 \<equiv> NewFaceDetector ''out.png'' ''facefinder'' 20 1000
           (Finite (1 / 10)) (Finite (11 / 10)) (Finite (1 / 5)) (Finite 0)"

abbreviation (input) w0 :: "unit world" where
  "w0 \<equiv> \<lparr>heap = [img0], dc = None, files = [''facefinder'' \<mapsto> [1]], can_open = (\<lambda>p. True)\<rparr>"

text \<open>
  A second stand-in whose sweep reports one detection of score 1, two faces (one
  of score 10, one of score exactly 5) and a world in which \<open>dc\<close> is set.
\<close>

abbreviation (input) core1 :: "unit core" where
  "core1 \<equiv> \<lparr>RgbToGrayscale = (\<lambda>n. []),
            Unpack = (\<lambda>bs. if bs = [1] then Inr () else Inl (UnpackError ''bad cascade'')),
            RunCascade = (\<lambda>m p a. [\<lparr>Row = 10, Col = 10, Scale = 4, Q = Finite 1\<rparr>]),
            ClusterDetections = (\<lambda>m ds t. ds)\<rparr>"

abbreviation (input) face_hi :: Detection where
  "face_hi \<equiv> \<lparr>Row = 100, Col = 50, Scale = 40, Q = Finite 10\<rparr>"

abbreviation (input) face_lo :: Detection where
  "face_lo \<equiv> \<lparr>Row = 10, Col = 10, Scale = 4, Q = Finite 5\<rparr>"

abbreviation (input) w1 :: "unit world" where
  "w1 \<equiv> \<lparr>heap = [img0], dc = Some (NewContext 1 1), files = [''facefinder'' \<mapsto> [1]],
          can_open = (\<lambda>p. True)\<rparr>"

text \<open>
  A well-formed cascade stream of depth 1 with one tree: one internal node, two
  leaves (1.0 and 2.0) and the threshold 0.0.
\<close>

abbreviation (input) stream_ok :: "byte list" where
  "stream_ok \<equiv> [0,0,0,0,0,0,0,0, 1,0,0,0, 1,0,0,0, 1,2,3,4, 0,0,128,63, 0,0,0,64, 0,0,0,0]"

text \<open>Sweep parameters with the smallest window sides 1 and 2.\<close>

abbreviation (input) params1 :: cascade_params where
  "params1 \<equiv> \<lparr>min_size = 1, max_size = 1, shift_factor = 1 / 10, scale_factor = 11 / 10\<rparr>"

abbreviation (input) params2 :: cascade_params where
  "params2 \<equiv> \<lparr>min_size = 2, max_size = 2, shift_factor = 1 / 10, scale_factor = 11 / 10\<rparr>"

text \<open>
  Detections of side 10: two that overlap with IoU 1/4, one that overlaps each of
  them with IoU 7/43 only but their mean with IoU 1/4, and one far away.
\<close>

abbreviation (input) det_a1 :: detection where
  "det_a1 \<equiv> \<lparr>row = 0, col = 0, scale = 10, q = 1\<rparr>"
abbreviation (input) det_a2 :: detection where
  "det_a2 \<equiv> \<lparr>row = 0, col = 6, scale = 10, q = 1\<rparr>"
abbreviation (input) det_b :: detection where
  "det_b \<equiv> \<lparr>row = 6, col = 3, scale = 10, q = 1\<rparr>"
abbreviation (input) det_far :: detection where
  "det_far \<equiv> \<lparr>row = 50, col = 50, scale = 10, q = 1\<rparr>"

text \<open>
  Images that need conversion: a 2-by-2 NRGBA image whose bounds start at (1, 1),
  a 2-by-1 image of another type at (1, 1), and a 2-by-2 YCbCr image with 4:2:0
  subsampling.
\<close>

abbreviation (input) img_off :: "unit Image" where
  "img_off \<equiv> ImNRGBA \<lparr>Pix = [1, 2, 3, 4, 5, 6, 7, 8, 9, 10, 11, 12, 13, 14, 15, 16], Stride = 8,
                       Rect = image_Rect 1 1 3 3\<rparr>"

abbreviation (input) img_other :: "unit Image" where
  "img_other \<equiv> ImOther \<lparr>AnyBounds = image_Rect 1 1 3 2, At = (\<lambda>x y. ())\<rparr>"

abbreviation (input) img_ycbcr :: "unit Image" where
  "img_ycbcr \<equiv> ImYCbCr \<lparr>YPlane = [1, 2, 3, 4], CbPlane = [5], CrPlane = [6], YStride = 2,
                        CStride = 1, SubsampleRatio = Ratio420, YRect = image_Rect 0 0 2 2\<rparr>"

section \<open>Properties of the image converter\<close>

lemma NewNRGBA_Rect: "NewNRGBA r = Some d \<Longrightarrow> Rect d = r"
  by (auto simp: NewNRGBA_def split: if_splits)

lemma fill_from_NRGBA_Rect: "fill_from_NRGBA src sb dst = Some d \<Longrightarrow> Rect d = Rect dst"
  by (auto simp: fill_from_NRGBA_def Let_def)

lemma fill_from_YCbCr_Rect: "fill_from_YCbCr lib src sb dst = Some d \<Longrightarrow> Rect d = Rect dst"
  by (auto simp: fill_from_YCbCr_def Let_def)

lemma fill_from_other_Rect: "fill_from_other lib src sb dst = Some d \<Longrightarrow> Rect d = Rect dst"
  by (auto simp: fill_from_other_def Let_def)

lemma deref_alloc_new: "alloc h v = (h', p) \<Longrightarrow> deref h' p = Some v"
  by (auto simp: alloc_def deref_def)

lemma deref_alloc_old: "alloc h v = (h', p) \<Longrightarrow> k < length h \<Longrightarrow> deref h' k = deref h k"
  by (auto simp: alloc_def deref_def nth_append)

lemma ImgToNRGBA_same:
  "deref h img = Some (ImNRGBA n) \<Longrightarrow> X (MinP (Rect n)) = 0 \<Longrightarrow> Y (MinP (Rect n)) = 0
   \<Longrightarrow> ImgToNRGBA lib h img = Return (h, img)"
  by (simp add: ImgToNRGBA_def)

lemma ImgToNRGBA_Return:
  assumes "ImgToNRGBA lib h img = Return (h', p)"
  shows "\<exists>im n'. deref h img = Some im \<and> deref h' p = Some (ImNRGBA n')
           \<and> X (MinP (Rect n')) = 0 \<and> Y (MinP (Rect n')) = 0
           \<and> Dx (Rect n') = Dx (Bounds im) \<and> Dy (Rect n') = Dy (Bounds im)"
proof (cases "deref h img")
  case None
  with assms show ?thesis by (simp add: ImgToNRGBA_def)
next
  case (Some im)
  show ?thesis
  proof (cases "X (MinP (Bounds im)) = 0 \<and> Y (MinP (Bounds im)) = 0 \<and> is_NRGBA im")
    case True
    then obtain n where n: "im = ImNRGBA n" by (cases im) auto
    from assms Some True have "h' = h" "p = img" by (auto simp: ImgToNRGBA_def)
    with Some True n show ?thesis by auto
  next
    case False
    let ?db = "Rect_Sub (Bounds im) (MinP (Bounds im))"
    from assms Some False obtain dst dst' where
      dst: "NewNRGBA ?db = Some dst" and
      fill: "(case im of ImNRGBA src \<Rightarrow> fill_from_NRGBA src (Bounds im) dst
                | ImYCbCr src \<Rightarrow> fill_from_YCbCr lib src (Bounds im) dst
                | ImOther src \<Rightarrow> fill_from_other lib src (Bounds im) dst) = Some dst'" and
      al: "alloc h (ImNRGBA dst') = (h', p)"
      by (auto simp: ImgToNRGBA_def Let_def split: option.splits if_splits)
    from fill have "Rect dst' = Rect dst"
      by (cases im) (auto dest: fill_from_NRGBA_Rect fill_from_YCbCr_Rect fill_from_other_Rect)
    with NewNRGBA_Rect[OF dst] have r: "Rect dst' = ?db" by simp
    have "deref h' p = Some (ImNRGBA dst')" using al by (rule deref_alloc_new)
    with Some r show ?thesis
      by (auto simp: Rect_Sub_def Pt_def Dx_def Dy_def)
  qed
qed

lemma ImgToNRGBA_keeps_store:
  assumes "ImgToNRGBA lib h img = Return (h', p)" and "k < length h"
  shows "deref h' k = deref h k"
proof -
  from assms(1) have "h' = h \<or> (\<exists>v. alloc h v = (h', p))"
    by (auto simp: ImgToNRGBA_def Let_def split: option.splits if_splits)
  then show ?thesis using assms(2) by (auto dest: deref_alloc_old)
qed

lemma ImgToNRGBA_src_in_store:
  "ImgToNRGBA lib h img = Return (h', p) \<Longrightarrow> img < length h"
  by (auto simp: ImgToNRGBA_def deref_def split: option.splits if_splits)

lemma for_count_invariant:
  assumes init: "P 0 s"
    and step: "\<And>i t. 0 \<le> i \<Longrightarrow> i < n \<Longrightarrow> P i t \<Longrightarrow> \<exists>t'. body i t = Some t' \<and> P (i + 1) t'"
  shows "\<exists>t. for_count n body s = Some t \<and> P (max 0 n) t"
proof -
  have "k \<le> nat n \<Longrightarrow>
      \<exists>t. fold (\<lambda>i acc. Option.bind acc (body (int i))) [0..<k] (Some s) = Some t \<and> P (int k) t" for k
  proof (induction k)
    case 0
    with init show ?case by simp
  next
    case (Suc k)
    then obtain t where t: "fold (\<lambda>i acc. Option.bind acc (body (int i))) [0..<k] (Some s) = Some t"
      and Pt: "P (int k) t" by auto
    from Suc.prems have "0 \<le> int k" "int k < n" by simp_all
    from step[OF this Pt] obtain t' where "body (int k) t = Some t'" "P (int k + 1) t'" by blast
    with t show ?case by (simp add: add.commute)
  qed
  from this[of "nat n"] show ?thesis by (simp add: for_count_def max_def)
qed

lemma store_at_Some:
  "0 \<le> i \<Longrightarrow> i < int (length xs) \<Longrightarrow> store_at xs i v = Some (xs[nat i := v])"
  by (simp add: store_at_def)

lemma put_pixel_Some:
  assumes "0 \<le> di" and "di + 4 \<le> int (length pix)"
  shows "\<exists>pix'. put_pixel (pix, di) r g b a = Some (pix', di + 4) \<and> length pix' = length pix"
  using assms by (simp add: put_pixel_def store_at_def)

text \<open>A row of pixels written one after the other fits when the row does.\<close>

lemma pixel_row:
  fixes pix :: "byte list"
  assumes body: "\<And>i st. 0 \<le> i \<Longrightarrow> i < w \<Longrightarrow> \<exists>r g b a. body i st = put_pixel st r g b a"
    and "0 \<le> w" and "0 \<le> di0" and "di0 + 4 * w \<le> int (length pix)"
  shows "\<exists>pix'. map_option fst (for_count w body (pix, di0)) = Some pix' \<and> length pix' = length pix"
proof -
  let ?P = "\<lambda>i st. length (fst st) = length pix \<and> snd st = di0 + 4 * i"
  have "\<exists>t. for_count w body (pix, di0) = Some t \<and> ?P (max 0 w) t"
  proof (rule for_count_invariant)
    show "?P 0 (pix, di0)" by simp
  next
    fix i and st :: "byte list \<times> int"
    assume i: "0 \<le> i" "i < w" and P: "?P i st"
    obtain px di where st: "st = (px, di)" by (cases st)
    from P st have l: "length px = length pix" and d: "di = di0 + 4 * i" by simp_all
    from body[OF i, of st] obtain r g b a where b: "body i st = put_pixel st r g b a" by blast
    have "0 \<le> di" using d i assms(3) by simp
    moreover have "di + 4 \<le> int (length px)" using d i assms(4) l by simp
    ultimately obtain px' where "put_pixel (px, di) r g b a = Some (px', di + 4)" "length px' = length px"
      using put_pixel_Some by blast
    with b st l d show "\<exists>t'. body i st = Some t' \<and> ?P (i + 1) t'" by simp
  qed
  then show ?thesis by auto
qed

lemma pixel_rows:
  assumes "\<And>y px. 0 \<le> y \<Longrightarrow> y < h \<Longrightarrow> length px = l \<Longrightarrow> \<exists>px'. body y px = Some px' \<and> length px' = l"
    and "length pix = l"
  shows "\<exists>pix'. for_count h body pix = Some pix' \<and> length pix' = l"
proof -
  have "\<exists>t. for_count h body pix = Some t \<and> (\<lambda>i t. length t = l) (max 0 h) t"
    by (rule for_count_invariant) (use assms in auto)
  then show ?thesis by simp
qed

text \<open>The offset of a row of the new image, and that the row lies in its buffer.\<close>

lemma row_fits:
  fixes w y h :: int
  assumes "0 \<le> w" and "0 \<le> y" and "y < h"
  shows "0 \<le> y * (4 * w) \<and> y * (4 * w) + 4 * w \<le> 4 * w * h"
proof -
  have "0 \<le> y * (4 * w)" using assms by simp
  moreover have "(y + 1) * (4 * w) \<le> h * (4 * w)"
    using assms by (intro mult_right_mono) simp_all
  then have "y * (4 * w) + 4 * w \<le> 4 * w * h" by (simp add: algebra_simps)
  ultimately show ?thesis by simp
qed

lemma NewNRGBA_Some:
  assumes "NewNRGBA r = Some d"
  shows "Rect d = r" and "Stride d = 4 * Dx r" and "int (length (Pix d)) = 4 * Dx r * Dy r"
    and "0 \<le> Dx r" and "0 \<le> Dy r"
proof -
  from assms have w: "0 \<le> Dx r" and h: "0 \<le> Dy r"
    and d: "d = \<lparr>Pix = replicate (nat (4 * Dx r * Dy r)) 0, Stride = 4 * Dx r, Rect = r\<rparr>"
    by (auto simp: NewNRGBA_def split: if_splits)
  from w h have "0 \<le> 4 * Dx r * Dy r" by simp
  with d show "int (length (Pix d)) = 4 * Dx r * Dy r" by simp
  from d show "Rect d = r" "Stride d = 4 * Dx r" by simp_all
  from w h show "0 \<le> Dx r" "0 \<le> Dy r" .
qed

lemma NewNRGBA_readable:
  "0 \<le> Dx r \<Longrightarrow> 0 \<le> Dy r \<Longrightarrow> 4 * Dx r * Dy r < 2 ^ 63 \<Longrightarrow> \<exists>d. NewNRGBA r = Some d"
  by (simp add: NewNRGBA_def)

lemma Rect_Sub_origin:
  "X (MinP (Rect_Sub r (MinP r))) = 0" "Y (MinP (Rect_Sub r (MinP r))) = 0"
  "Dx (Rect_Sub r (MinP r)) = Dx r" "Dy (Rect_Sub r (MinP r)) = Dy r"
  by (simp_all add: Rect_Sub_def Pt_def Dx_def Dy_def)

lemma PixOffset_new:
  assumes "NewNRGBA r = Some d" and "X (MinP r) = 0" and "Y (MinP r) = 0"
  shows "PixOffset d 0 y = y * (4 * Dx r)"
  using NewNRGBA_Some(1,2)[OF assms(1)] assms(2,3) by (simp add: PixOffset_def)

text \<open>Every row loop of the converter has this shape.\<close>

lemma fill_rows:
  assumes dst: "NewNRGBA r = Some dst" and o: "X (MinP r) = 0" "Y (MinP r) = 0"
    and row: "\<And>y px. 0 \<le> y \<Longrightarrow> y < Dy r \<Longrightarrow> int (length px) = 4 * Dx r * Dy r \<Longrightarrow>
                \<exists>px'. body y px = Some px' \<and> length px' = length px"
  shows "\<exists>d. map_option (\<lambda>pix. dst\<lparr>Pix := pix\<rparr>) (for_count (Dy r) body (Pix dst)) = Some d"
proof -
  note N = NewNRGBA_Some[OF dst]
  have "\<exists>pix'. for_count (Dy r) body (Pix dst) = Some pix' \<and> length pix' = length (Pix dst)"
  proof (rule pixel_rows)
    fix y and px :: "byte list"
    assume "0 \<le> y" "y < Dy r" "length px = length (Pix dst)"
    with row[of y px] N(3) show "\<exists>px'. body y px = Some px' \<and> length px' = length (Pix dst)"
      by simp
  qed simp
  then show ?thesis by auto
qed

lemma fill_from_other_Some:
  assumes dst: "NewNRGBA r = Some dst" and o: "X (MinP r) = 0" "Y (MinP r) = 0"
  shows "\<exists>d. fill_from_other lib img sb dst = Some d"
proof -
  note N = NewNRGBA_Some[OF dst]
  show ?thesis
    unfolding fill_from_other_def Let_def N(1)
  proof (rule fill_rows[OF dst o])
    fix y and px :: "byte list"
    assume y: "0 \<le> y" "y < Dy r" and l: "int (length px) = 4 * Dx r * Dy r"
    from row_fits[OF N(4) y] l
    have f: "0 \<le> y * (4 * Dx r)" "y * (4 * Dx r) + 4 * Dx r \<le> int (length px)" by simp_all
    show "\<exists>px'. map_option fst
             (for_count (Dx r)
               (\<lambda>dstX st. case NRGBAModelConvert lib (At img (X (MinP sb) + dstX) (Y (MinP sb) + y)) of
                    (r, g, b, a) \<Rightarrow> put_pixel st r g b a)
               (px, PixOffset dst 0 y)) = Some px' \<and> length px' = length px"
      unfolding PixOffset_new[OF dst o]
    proof (rule pixel_row[OF _ N(4) f])
      fix i and st :: "byte list \<times> int"
      show "\<exists>r g b a. (case NRGBAModelConvert lib (At img (X (MinP sb) + i) (Y (MinP sb) + y)) of
                    (r, g, b, a) \<Rightarrow> put_pixel st r g b a) = put_pixel st r g b a"
        by (cases "NRGBAModelConvert lib (At img (X (MinP sb) + i) (Y (MinP sb) + y))") auto
    qed
  qed
qed

lemma samples_in_rangeD:
  assumes "samples_in_range src" and "0 \<le> y" "y < Dy (YRect src)" and "0 \<le> x" "x < Dx (YRect src)"
  shows "0 \<le> YOffset src (X (MinP (YRect src)) + x) (Y (MinP (YRect src)) + y)"
    and "YOffset src (X (MinP (YRect src)) + x) (Y (MinP (YRect src)) + y) < int (length (YPlane src))"
    and "0 \<le> COffset src (X (MinP (YRect src)) + x) (Y (MinP (YRect src)) + y)"
    and "COffset src (X (MinP (YRect src)) + x) (Y (MinP (YRect src)) + y) < int (length (CbPlane src))"
    and "COffset src (X (MinP (YRect src)) + x) (Y (MinP (YRect src)) + y) < int (length (CrPlane src))"
proof -
  from assms(2,3) have y: "nat y \<in> set [0..<nat (Dy (YRect src))]" by simp
  from assms(4,5) have x: "nat x \<in> set [0..<nat (Dx (YRect src))]" by simp
  from assms(1) y x assms(2,4)
  have "0 \<le> YOffset src (X (MinP (YRect src)) + x) (Y (MinP (YRect src)) + y)
      \<and> YOffset src (X (MinP (YRect src)) + x) (Y (MinP (YRect src)) + y) < int (length (YPlane src))
      \<and> 0 \<le> COffset src (X (MinP (YRect src)) + x) (Y (MinP (YRect src)) + y)
      \<and> COffset src (X (MinP (YRect src)) + x) (Y (MinP (YRect src)) + y) < int (length (CbPlane src))
      \<and> COffset src (X (MinP (YRect src)) + x) (Y (MinP (YRect src)) + y) < int (length (CrPlane src))"
    unfolding samples_in_range_def list_all_iff Let_def
    by (metis int_nat_eq)
  then show
    "0 \<le> YOffset src (X (MinP (YRect src)) + x) (Y (MinP (YRect src)) + y)"
    "YOffset src (X (MinP (YRect src)) + x) (Y (MinP (YRect src)) + y) < int (length (YPlane src))"
    "0 \<le> COffset src (X (MinP (YRect src)) + x) (Y (MinP (YRect src)) + y)"
    "COffset src (X (MinP (YRect src)) + x) (Y (MinP (YRect src)) + y) < int (length (CbPlane src))"
    "COffset src (X (MinP (YRect src)) + x) (Y (MinP (YRect src)) + y) < int (length (CrPlane src))"
    by simp_all
qed

lemma fill_from_YCbCr_Some:
  assumes dst: "NewNRGBA r = Some dst" and o: "X (MinP r) = 0" "Y (MinP r) = 0"
    and dims: "Dx r = Dx (YRect src)" "Dy r = Dy (YRect src)"
    and ok: "samples_in_range src"
  shows "\<exists>d. fill_from_YCbCr lib src (YRect src) dst = Some d"
proof -
  note N = NewNRGBA_Some[OF dst]
  show ?thesis
    unfolding fill_from_YCbCr_def Let_def N(1)
  proof (rule fill_rows[OF dst o])
    fix y and px :: "byte list"
    assume y: "0 \<le> y" "y < Dy r" and l: "int (length px) = 4 * Dx r * Dy r"
    from row_fits[OF N(4) y] l
    have f: "0 \<le> y * (4 * Dx r)" "y * (4 * Dx r) + 4 * Dx r \<le> int (length px)" by simp_all
    let ?body = "\<lambda>dstX st.
        Option.bind (index_at (YPlane src)
            (YOffset src (X (MinP (YRect src)) + dstX) (Y (MinP (YRect src)) + y))) (\<lambda>yy.
        Option.bind (index_at (CbPlane src)
            (COffset src (X (MinP (YRect src)) + dstX) (Y (MinP (YRect src)) + y))) (\<lambda>cb.
        Option.bind (index_at (CrPlane src)
            (COffset src (X (MinP (YRect src)) + dstX) (Y (MinP (YRect src)) + y))) (\<lambda>cr.
          case YCbCrToRGB lib yy cb cr of (r, g, b) \<Rightarrow> put_pixel st r g b 255)))"
    show "\<exists>px'. map_option fst (for_count (Dx r) ?body (px, PixOffset dst 0 y)) = Some px'
             \<and> length px' = length px"
      unfolding PixOffset_new[OF dst o]
    proof (rule pixel_row[OF _ N(4) f])
      fix i and st :: "byte list \<times> int"
      assume i: "0 \<le> i" "i < Dx r"
      from y i dims have yy: "0 \<le> y" "y < Dy (YRect src)" and ii: "0 \<le> i" "i < Dx (YRect src)"
        by simp_all
      note S = samples_in_rangeD[OF ok yy ii]
      obtain a b c where t: "YCbCrToRGB lib
          (YPlane src ! nat (YOffset src (X (MinP (YRect src)) + i) (Y (MinP (YRect src)) + y)))
          (CbPlane src ! nat (COffset src (X (MinP (YRect src)) + i) (Y (MinP (YRect src)) + y)))
          (CrPlane src ! nat (COffset src (X (MinP (YRect src)) + i) (Y (MinP (YRect src)) + y)))
          = (a, b, c)" by (rule prod_cases3)
      have "?body i st = put_pixel st a b c 255"
        using S t by (simp add: index_at_def)
      then show "\<exists>r g b a. ?body i st = put_pixel st r g b a" by blast
    qed
  qed
qed

lemma copy_slices_Some:
  assumes "0 \<le> dlo" "0 \<le> k" "dlo + k \<le> int (length dst)" "0 \<le> slo" "slo + k \<le> int (length src)"
  shows "\<exists>res. copy_slices dst dlo (dlo + k) src slo (slo + k) = Some res \<and> length res = length dst"
  using assms by (simp add: copy_slices_def slice_def Let_def)

lemma fill_from_NRGBA_Some:
  assumes dst: "NewNRGBA r = Some dst" and o: "X (MinP r) = 0" "Y (MinP r) = 0"
    and dims: "Dx r = Dx (Rect src)" "Dy r = Dy (Rect src)"
    and ok: "Dx (Rect src) = 0 \<or> Dy (Rect src) = 0
             \<or> (0 \<le> Stride src
                 \<and> (Dy (Rect src) - 1) * Stride src + 4 * Dx (Rect src) \<le> int (length (Pix src)))"
  shows "\<exists>d. fill_from_NRGBA src (Rect src) dst = Some d"
proof -
  note N = NewNRGBA_Some[OF dst]
  have si: "PixOffset src (X (MinP (Rect src))) (Y (MinP (Rect src)) + y) = y * Stride src" for y
    by (simp add: PixOffset_def)
  show ?thesis
    unfolding fill_from_NRGBA_def Let_def N(1) si
  proof (rule fill_rows[OF dst o])
    fix y and px :: "byte list"
    assume y: "0 \<le> y" "y < Dy r" and l: "int (length px) = 4 * Dx r * Dy r"
    from row_fits[OF N(4) y] l
    have f: "0 \<le> y * (4 * Dx r)" "y * (4 * Dx r) + 4 * Dx r \<le> int (length px)" by simp_all
    let ?body = "\<lambda>dstX pix. copy_slices pix (PixOffset dst 0 y) (PixOffset dst 0 y + Dx (Rect src) * 4)
                    (Pix src) (y * Stride src) (y * Stride src + Dx (Rect src) * 4)"
    have "\<exists>t. for_count (Dx r) ?body px = Some t \<and> (\<lambda>i t. length t = length px) (max 0 (Dx r)) t"
    proof (rule for_count_invariant)
      show "length px = length px" ..
    next
      fix i and t :: "byte list"
      assume i: "0 \<le> i" "i < Dx r" and t: "length t = length px"
      from i dims have w: "0 < Dx (Rect src)" by simp
      from y dims have h: "0 < Dy (Rect src)" by simp
      from ok w h have st: "0 \<le> Stride src"
        and fit: "(Dy (Rect src) - 1) * Stride src + 4 * Dx (Rect src) \<le> int (length (Pix src))"
        by simp_all
      from y dims have "y \<le> Dy (Rect src) - 1" by simp
      then have "y * Stride src \<le> (Dy (Rect src) - 1) * Stride src" using st by (rule mult_right_mono)
      with fit have s2: "y * Stride src + Dx (Rect src) * 4 \<le> int (length (Pix src))" by simp
      from y st have s1: "0 \<le> y * Stride src" by simp
      from f t dims have d1: "0 \<le> PixOffset dst 0 y"
        and d2: "PixOffset dst 0 y + Dx (Rect src) * 4 \<le> int (length t)"
        unfolding PixOffset_new[OF dst o] by simp_all
      from w have k: "0 \<le> Dx (Rect src) * 4" by simp
      from copy_slices_Some[OF d1 k d2 s1 s2] t
      show "\<exists>t'. ?body i t = Some t' \<and> length t' = length px" by simp
    qed
    then show "\<exists>px'. for_count (Dx r) ?body px = Some px' \<and> length px' = length px" by simp
  qed
qed

lemma ImgToNRGBA_returns:
  assumes "deref h img = Some im" and "readable im"
  shows "\<exists>h' p. ImgToNRGBA lib h img = Return (h', p)"
proof (cases "X (MinP (Bounds im)) = 0 \<and> Y (MinP (Bounds im)) = 0 \<and> is_NRGBA im")
  case True
  with assms(1) show ?thesis by (simp add: ImgToNRGBA_def)
next
  case False
  let ?db = "Rect_Sub (Bounds im) (MinP (Bounds im))"
  from assms(2) have "0 \<le> Dx ?db" "0 \<le> Dy ?db" "4 * Dx ?db * Dy ?db < 2 ^ 63"
    by (simp_all add: readable_def Rect_Sub_origin)
  then obtain dst where dst: "NewNRGBA ?db = Some dst" using NewNRGBA_readable by blast
  note o = Rect_Sub_origin(1,2)[of "Bounds im"]
  note dims = Rect_Sub_origin(3,4)[of "Bounds im"]
  have "\<exists>d. (case im of
             ImNRGBA src \<Rightarrow> fill_from_NRGBA src (Bounds im) dst
           | ImYCbCr src \<Rightarrow> fill_from_YCbCr lib src (Bounds im) dst
           | ImOther src \<Rightarrow> fill_from_other lib src (Bounds im) dst) = Some d"
  proof (cases im)
    case (ImNRGBA src)
    with assms(2) fill_from_NRGBA_Some[OF dst o, of src] dims show ?thesis
      by (simp add: readable_def)
  next
    case (ImYCbCr src)
    with assms(2) fill_from_YCbCr_Some[OF dst o, of src lib] dims show ?thesis
      by (simp add: readable_def)
  next
    case (ImOther src)
    with fill_from_other_Some[OF dst o, of lib src] show ?thesis by simp
  qed
  then obtain d where "(case im of
             ImNRGBA src \<Rightarrow> fill_from_NRGBA src (Bounds im) dst
           | ImYCbCr src \<Rightarrow> fill_from_YCbCr lib src (Bounds im) dst
           | ImOther src \<Rightarrow> fill_from_other lib src (Bounds im) dst) = Some d" ..
  with assms(1) False dst show ?thesis
    by (simp add: ImgToNRGBA_def Let_def alloc_def)
qed

lemmas eval_ImgToNRGBA =
  ImgToNRGBA_def deref_def alloc_def NewNRGBA_def fill_from_NRGBA_def fill_from_YCbCr_def
  fill_from_other_def for_count_def copy_slices_def slice_def index_at_def store_at_def
  put_pixel_def PixOffset_def YOffset_def COffset_def quot_def Dx_def Dy_def Rect_Sub_def
  image_Rect_def Pt_def Let_def

lemma replicate_numeral_Cons: "replicate (numeral k) x = x # replicate (pred_numeral k) x"
  by (simp add: numeral_eq_Suc)

lemma list_update_numeral_Cons: "(x # xs)[numeral k := v] = x # xs[pred_numeral k := v]"
  by (simp add: numeral_eq_Suc)

lemma upt_0_1: "[0..<1] = [0]"
  by simp

lemma upt_0_2: "[0..<2] = [0, 1]"
  by (simp add: numeral_2_eq_2)

lemma ImgToNRGBA_fresh:
  assumes "deref h img = Some im"
    and "\<not> (X (MinP (Bounds im)) = 0 \<and> Y (MinP (Bounds im)) = 0 \<and> is_NRGBA im)"
    and "ImgToNRGBA lib h img = Return (h', p)"
  shows "p = length h \<and> (\<exists>n'. h' = h @ [ImNRGBA n'])"
  using assms by (auto simp: ImgToNRGBA_def Let_def alloc_def split: option.splits if_splits)

text \<open>
  C9. \<open>ImgToNRGBA\<close> returns an NRGBA image whose bounds start at the origin as it
  is: the same address, the store untouched, no copy. Running it on its own
  result gives that result again (a panic of the first run included). Whenever
  it returns, the returned image is an NRGBA image with bounds minimum (0, 0) and
  the width and height of the input. It does return on every readable image, of
  any of the three kinds; and when the input is not an NRGBA image at the origin,
  what it returns is a newly allocated image, the input staying where it was.
\<close>

theorem ImgToNRGBA_identity_idempotent:
  "(deref h img = Some (ImNRGBA n) \<and> X (MinP (Rect n)) = 0 \<and> Y (MinP (Rect n)) = 0
      \<longrightarrow> ImgToNRGBA lib h img = Return (h, img))
   \<and> bind_outcome (ImgToNRGBA lib h img) (\<lambda>(h', p). ImgToNRGBA lib h' p) = ImgToNRGBA lib h img
   \<and> (\<forall>h' p. ImgToNRGBA lib h img = Return (h', p) \<longrightarrow>
        (\<exists>im n'. deref h img = Some im \<and> deref h' p = Some (ImNRGBA n')
           \<and> X (MinP (Rect n')) = 0 \<and> Y (MinP (Rect n')) = 0
           \<and> Dx (Rect n') = Dx (Bounds im) \<and> Dy (Rect n') = Dy (Bounds im)))
   \<and> (\<forall>im. deref h img = Some im \<and> readable im \<longrightarrow>
        (\<exists>h' p. ImgToNRGBA lib h img = Return (h', p)))
   \<and> (\<forall>im h' p. deref h img = Some im
          \<and> \<not> (X (MinP (Bounds im)) = 0 \<and> Y (MinP (Bounds im)) = 0 \<and> is_NRGBA im)
          \<and> ImgToNRGBA lib h img = Return (h', p) \<longrightarrow>
        p = length h \<and> (\<exists>n'. h' = h @ [ImNRGBA n']))"
proof (intro conjI allI impI)
  assume "deref h img = Some (ImNRGBA n) \<and> X (MinP (Rect n)) = 0 \<and> Y (MinP (Rect n)) = 0"
  then show "ImgToNRGBA lib h img = Return (h, img)" by (simp add: ImgToNRGBA_same)
next
  show "bind_outcome (ImgToNRGBA lib h img) (\<lambda>(h', p). ImgToNRGBA lib h' p) = ImgToNRGBA lib h img"
  proof (cases "ImgToNRGBA lib h img")
    case Panic
    then show ?thesis by simp
  next
    case (Return v)
    obtain h' p where v: "v = (h', p)" by (cases v)
    from ImgToNRGBA_Return[OF Return[unfolded v]] obtain n' where
      "deref h' p = Some (ImNRGBA n')" "X (MinP (Rect n')) = 0" "Y (MinP (Rect n')) = 0" by blast
    then have "ImgToNRGBA lib h' p = Return (h', p)" by (rule ImgToNRGBA_same)
    with Return v show ?thesis by simp
  qed
next
  fix h' p assume "ImgToNRGBA lib h img = Return (h', p)"
  then show "\<exists>im n'. deref h img = Some im \<and> deref h' p = Some (ImNRGBA n')
           \<and> X (MinP (Rect n')) = 0 \<and> Y (MinP (Rect n')) = 0
           \<and> Dx (Rect n') = Dx (Bounds im) \<and> Dy (Rect n') = Dy (Bounds im)"
    by (rule ImgToNRGBA_Return)
next
  fix im assume "deref h img = Some im \<and> readable im"
  then show "\<exists>h' p. ImgToNRGBA lib h img = Return (h', p)"
    by (simp add: ImgToNRGBA_returns)
next
  fix im h' p
  assume a: "deref h img = Some im
          \<and> \<not> (X (MinP (Bounds im)) = 0 \<and> Y (MinP (Bounds im)) = 0 \<and> is_NRGBA im)
          \<and> ImgToNRGBA lib h img = Return (h', p)"
  from a have 1: "deref h img = Some im" by simp
  from a have 2: "\<not> (X (MinP (Bounds im)) = 0 \<and> Y (MinP (Bounds im)) = 0 \<and> is_NRGBA im)" by simp
  from a have 3: "ImgToNRGBA lib h img = Return (h', p)" by simp
  from ImgToNRGBA_fresh[OF 1 2 3] show "p = length h" by simp
  from ImgToNRGBA_fresh[OF 1 2 3] show "\<exists>n'. h' = h @ [ImNRGBA n']" by simp
qed

lemmas eval_readable =
  readable_def samples_in_range_def YOffset_def COffset_def quot_def Dx_def Dy_def
  image_Rect_def Pt_def Let_def upt_0_2 deref_def

theorem ImgToNRGBA_identity_idempotent_witness:
  "deref [img0] 0 = Some (ImNRGBA nrgba0)
   \<and> X (MinP (Rect nrgba0)) = 0 \<and> Y (MinP (Rect nrgba0)) = 0
   \<and> ImgToNRGBA lib0 [img0] 0 = Return ([img0], 0)
   \<and> (\<exists>im n'. deref [img0] 0 = Some im \<and> deref [img0] 0 = Some (ImNRGBA n')
         \<and> X (MinP (Rect n')) = 0 \<and> Y (MinP (Rect n')) = 0
         \<and> Dx (Rect n') = Dx (Bounds im) \<and> Dy (Rect n') = Dy (Bounds im))
   \<and> ImgToNRGBA lib0 [img_off] 0 =
       Return ([img_off, ImNRGBA \<lparr>Pix = [1, 2, 3, 4, 5, 6, 7, 8, 9, 10, 11, 12, 13, 14, 15, 16],
                                   Stride = 8, Rect = image_Rect 0 0 2 2\<rparr>], 1)
   \<and> ImgToNRGBA lib0 [img_other] 0 =
       Return ([img_other, ImNRGBA \<lparr>Pix = [0, 0, 0, 0, 0, 0, 0, 0], Stride = 8,
                                     Rect = image_Rect 0 0 2 1\<rparr>], 1)
   \<and> ImgToNRGBA lib0 [img_ycbcr] 0 =
       Return ([img_ycbcr, ImNRGBA \<lparr>Pix = [1, 5, 6, 255, 2, 5, 6, 255, 3, 5, 6, 255, 4, 5, 6, 255],
                                     Stride = 8, Rect = image_Rect 0 0 2 2\<rparr>], 1)
   \<and> (\<exists>h' p. ImgToNRGBA lib0 [img_off] 0 = Return (h', p) \<and> p = 1)
   \<and> (\<exists>h' p. ImgToNRGBA lib0 [img_other] 0 = Return (h', p) \<and> p = 1)"
proof -
  have id: "deref [img0] 0 = Some (ImNRGBA nrgba0)
     \<and> X (MinP (Rect nrgba0)) = 0 \<and> Y (MinP (Rect nrgba0)) = 0"
    by (simp add: deref_def image_Rect_def Pt_def)
  have off: "deref [img_off] 0 = Some img_off \<and> readable img_off
     \<and> \<not> (X (MinP (Bounds img_off)) = 0 \<and> Y (MinP (Bounds img_off)) = 0 \<and> is_NRGBA img_off)"
    by (simp add: eval_readable)
  have other: "deref [img_other] 0 = Some img_other \<and> readable img_other
     \<and> \<not> (X (MinP (Bounds img_other)) = 0 \<and> Y (MinP (Bounds img_other)) = 0 \<and> is_NRGBA img_other)"
    by (simp add: eval_readable)
  have e1: "ImgToNRGBA lib0 [img_off] 0 =
       Return ([img_off, ImNRGBA \<lparr>Pix = [1, 2, 3, 4, 5, 6, 7, 8, 9, 10, 11, 12, 13, 14, 15, 16],
                                   Stride = 8, Rect = image_Rect 0 0 2 2\<rparr>], 1)"
    by (simp add: eval_ImgToNRGBA upt_0_2 upt_0_1 replicate_numeral_Cons list_update_numeral_Cons)
  have e2: "ImgToNRGBA lib0 [img_other] 0 =
       Return ([img_other, ImNRGBA \<lparr>Pix = [0, 0, 0, 0, 0, 0, 0, 0], Stride = 8,
                                     Rect = image_Rect 0 0 2 1\<rparr>], 1)"
    by (simp add: eval_ImgToNRGBA upt_0_2 upt_0_1 replicate_numeral_Cons list_update_numeral_Cons)
  have e3: "ImgToNRGBA lib0 [img_ycbcr] 0 =
       Return ([img_ycbcr, ImNRGBA \<lparr>Pix = [1, 5, 6, 255, 2, 5, 6, 255, 3, 5, 6, 255, 4, 5, 6, 255],
                                     Stride = 8, Rect = image_Rect 0 0 2 2\<rparr>], 1)"
    by (simp add: eval_ImgToNRGBA upt_0_2 upt_0_1 replicate_numeral_Cons list_update_numeral_Cons)
  note T0 = ImgToNRGBA_identity_idempotent [of "[img0]" 0 nrgba0 lib0]
  note T1 = ImgToNRGBA_identity_idempotent [of "[img_off]" 0 nrgba0 lib0]
  note T2 = ImgToNRGBA_identity_idempotent [of "[img_other]" 0 nrgba0 lib0]
  from T1 off have x1: "\<exists>h' p. ImgToNRGBA lib0 [img_off] 0 = Return (h', p) \<and> p = 1"
    by (metis length_Cons list.size(3) One_nat_def)
  from T2 other have x2: "\<exists>h' p. ImgToNRGBA lib0 [img_other] 0 = Return (h', p) \<and> p = 1"
    by (metis length_Cons list.size(3) One_nat_def)
  from T0 id have x0: "ImgToNRGBA lib0 [img0] 0 = Return ([img0], 0)
     \<and> (\<exists>im n'. deref [img0] 0 = Some im \<and> deref [img0] 0 = Some (ImNRGBA n')
         \<and> X (MinP (Rect n')) = 0 \<and> Y (MinP (Rect n')) = 0
         \<and> Dx (Rect n') = Dx (Bounds im) \<and> Dy (Rect n') = Dy (Bounds im))"
    by blast
  from id x0 e1 e2 e3 x1 x2 show ?thesis by blast
qed


section \<open>Properties of \<open>DetectFaces\<close> and \<open>DrawFaces\<close>\<close>

text \<open>Every way \<open>DetectFaces\<close> can end.\<close>

lemma DetectFaces_cases:
  assumes "DetectFaces core lib w fd src = (w', r)"
  shows "(r = Panic \<and> w' = w \<and> ImgToNRGBA lib (heap w) src = Panic)
       \<or> (\<exists>h1 res resImg srcImg.
            ImgToNRGBA lib (heap w) src = Return (h1, res)
          \<and> deref h1 res = Some (ImNRGBA resImg)
          \<and> deref (heap w) src = Some srcImg
          \<and> w' = w\<lparr>heap := h1,
                   dc := Some (draw (OpDrawImage srcImg 0 0)
                            (NewContext (X (MaxP (Bounds srcImg))) (Y (MaxP (Bounds srcImg)))))\<rparr>
          \<and> r = Return
                (case files w (cascadeFile fd) of
                   None \<Rightarrow> Inl (PathError ''open'' (cascadeFile fd))
                 | Some bs \<Rightarrow>
                     (case Unpack core bs of
                        Inl e \<Rightarrow> Inl e
                      | Inr m \<Rightarrow>
                          Inr (ClusterDetections core m
                                 (RunCascade core m
                                    (cParams_of fd (RgbToGrayscale core resImg)
                                       (Y (MaxP (Bounds srcImg))) (X (MaxP (Bounds srcImg))))
                                    (angle fd))
                                 (iouThreshold fd)))))"
proof (cases "ImgToNRGBA lib (heap w) src")
  case Panic
  with assms show ?thesis by (simp add: DetectFaces_def)
next
  case (Return v)
  obtain h1 res where v: "v = (h1, res)" by (cases v)
  note R = Return[unfolded v]
  from ImgToNRGBA_Return[OF R] obtain srcImg resImg where
    s: "deref (heap w) src = Some srcImg" and r: "deref h1 res = Some (ImNRGBA resImg)" by blast
  have "src < length (heap w)" using R by (rule ImgToNRGBA_src_in_store)
  with ImgToNRGBA_keeps_store[OF R] s have s1: "deref h1 src = Some srcImg" by simp
  from assms show ?thesis
    unfolding DetectFaces_def R
    by (auto simp: s s1 r Let_def ReadFile_def split: option.splits sum.splits)
qed


lemma DetectFaces_ignores_dc:
  "snd (DetectFaces core lib (w\<lparr>dc := d\<rparr>) fd src) = snd (DetectFaces core lib w fd src)"
  by (simp add: DetectFaces_def Let_def ReadFile_def
           split: outcome.splits option.splits sum.splits prod.splits Image.splits)

lemma draw_face_step:
  "draw_face c f (ctx, rs) =
     (if float_gt (Q f) (Finite 5)
      then (ctx\<lparr>ops := ops ctx @ marker_ops c f\<rparr>, rs @ [face_rect f])
      else (ctx, rs))"
  by (simp add: draw_face_def qThresh_def marker_ops_def draw_def Let_def)

lemma draw_loop_fold:
  "fold (draw_face c) faces (ctx, rs) =
     (ctx\<lparr>ops := ops ctx @ concat (map (marker_ops c) (filter (\<lambda>f. float_gt (Q f) (Finite 5)) faces))\<rparr>,
      rs @ map face_rect (filter (\<lambda>f. float_gt (Q f) (Finite 5)) faces))"
proof (induction faces arbitrary: ctx rs)
  case Nil
  show ?case by simp
next
  case (Cons f faces)
  show ?case
    by (simp add: Cons.IH draw_face_step)
qed

lemma draw_loop_eq:
  "draw_loop c faces ctx =
     (ctx\<lparr>ops := ops ctx @ concat (map (marker_ops c) (filter (\<lambda>f. float_gt (Q f) (Finite 5)) faces))\<rparr>,
      map face_rect (filter (\<lambda>f. float_gt (Q f) (Finite 5)) faces))"
  by (simp add: draw_loop_def draw_loop_fold)

lemma DrawFaces_opened:
  assumes "dc w = Some ctx" and "can_open w (destination fd)"
  shows "\<exists>w' rf. DrawFaces lib w fd faces c = (w', Return (rf, snd (draw_loop c faces ctx), None))"
  using assms
  by (auto simp: DrawFaces_def Let_def ReadFile_def split: prod.splits)

lemma DrawFaces_dc:
  assumes "dc w = Some ctx"
  shows "dc (fst (DrawFaces lib w fd faces c)) = Some (fst (draw_loop c faces ctx))"
  using assms
  by (auto simp: DrawFaces_def Let_def ReadFile_def split: prod.splits)

text \<open>
  C1, as stated, fails: \<open>DetectFaces\<close> assigns the package-level variable \<open>dc\<close>.
  Started with \<open>dc\<close> nil on a one-pixel image, it leaves \<open>dc\<close> pointing to a
  1-by-1 context on which the source image has been drawn.
\<close>

theorem DetectFaces_assigns_dc:
  "dc w0 = None \<and> dc (fst (DetectFaces core0 lib0 w0 fd0 0)) =
   Some \<lparr>ctx_width = 1, ctx_height = 1, ops = [OpDrawImage img0 0 0]\<rparr>"
  by (simp add: DetectFaces_def ImgToNRGBA_def deref_def image_Rect_def Pt_def Let_def
        NewFaceDetector_def ReadFile_def cParams_of_def NewContext_def draw_def)

text \<open>
  C1, amended. \<open>DetectFaces\<close> leaves the files, the outcome of opening files and
  every image the caller holds as they were. When it panics (in the image
  normalisation) nothing has changed. In every other case, the error returns
  included, it has replaced \<open>dc\<close> by a new context whose size is the maximum
  corner of the source bounds and on which the source image has been drawn.
\<close>

theorem DetectFaces_frame:
  "files (fst (DetectFaces core lib w fd src)) = files w
   \<and> can_open (fst (DetectFaces core lib w fd src)) = can_open w
   \<and> (\<forall>p < length (heap w). deref (heap (fst (DetectFaces core lib w fd src))) p = deref (heap w) p)
   \<and> (snd (DetectFaces core lib w fd src) = Panic \<longrightarrow> fst (DetectFaces core lib w fd src) = w)
   \<and> (snd (DetectFaces core lib w fd src) \<noteq> Panic \<longrightarrow>
        (\<exists>srcImg. deref (heap w) src = Some srcImg
           \<and> dc (fst (DetectFaces core lib w fd src)) =
               Some (draw (OpDrawImage srcImg 0 0)
                       (NewContext (X (MaxP (Bounds srcImg))) (Y (MaxP (Bounds srcImg)))))))"
proof -
  obtain w' r where eq: "DetectFaces core lib w fd src = (w', r)" by (cases "DetectFaces core lib w fd src")
  from DetectFaces_cases[OF eq] show ?thesis
  proof
    assume "r = Panic \<and> w' = w \<and> ImgToNRGBA lib (heap w) src = Panic"
    then show ?thesis by (simp add: eq)
  next
    assume "\<exists>h1 res resImg srcImg.
            ImgToNRGBA lib (heap w) src = Return (h1, res)
          \<and> deref h1 res = Some (ImNRGBA resImg)
          \<and> deref (heap w) src = Some srcImg
          \<and> w' = w\<lparr>heap := h1,
                   dc := Some (draw (OpDrawImage srcImg 0 0)
                            (NewContext (X (MaxP (Bounds srcImg))) (Y (MaxP (Bounds srcImg)))))\<rparr>
          \<and> r = Return
                (case files w (cascadeFile fd) of
                   None \<Rightarrow> Inl (PathError ''open'' (cascadeFile fd))
                 | Some bs \<Rightarrow>
                     (case Unpack core bs of
                        Inl e \<Rightarrow> Inl e
                      | Inr m \<Rightarrow>
                          Inr (ClusterDetections core m
                                 (RunCascade core m
                                    (cParams_of fd (RgbToGrayscale core resImg)
                                       (Y (MaxP (Bounds srcImg))) (X (MaxP (Bounds srcImg))))
                                    (angle fd))
                                 (iouThreshold fd))))"
    then obtain h1 res srcImg where
      I: "ImgToNRGBA lib (heap w) src = Return (h1, res)" and
      s: "deref (heap w) src = Some srcImg" and
      w': "w' = w\<lparr>heap := h1,
                   dc := Some (draw (OpDrawImage srcImg 0 0)
                            (NewContext (X (MaxP (Bounds srcImg))) (Y (MaxP (Bounds srcImg)))))\<rparr>" and
      r: "r \<noteq> Panic" by auto
    have "\<forall>p < length (heap w). deref h1 p = deref (heap w) p"
      using ImgToNRGBA_keeps_store[OF I] by blast
    with s w' r show ?thesis by (simp add: eq)
  qed
qed

theorem DetectFaces_frame_witness:
  "snd (DetectFaces core0 lib0 w0 fd0 0) \<noteq> Panic
   \<and> (\<exists>srcImg. deref (heap w0) 0 = Some srcImg
         \<and> dc (fst (DetectFaces core0 lib0 w0 fd0 0)) =
             Some (draw (OpDrawImage srcImg 0 0)
                     (NewContext (X (MaxP (Bounds srcImg))) (Y (MaxP (Bounds srcImg))))))
   \<and> snd (DetectFaces core0 lib0 w0 fd0 7) = Panic
   \<and> fst (DetectFaces core0 lib0 w0 fd0 7) = w0"
proof -
  have ok: "snd (DetectFaces core0 lib0 w0 fd0 0) \<noteq> Panic"
    by (simp add: DetectFaces_def ImgToNRGBA_def deref_def image_Rect_def Pt_def Let_def
          NewFaceDetector_def ReadFile_def)
  have nil: "snd (DetectFaces core0 lib0 w0 fd0 7) = Panic"
    by (simp add: DetectFaces_def ImgToNRGBA_def deref_def)
  from ok nil DetectFaces_frame [of core0 lib0 w0 fd0 0] DetectFaces_frame [of core0 lib0 w0 fd0 7]
  show ?thesis by blast
qed

lemmas eval_DetectFaces =
  DetectFaces_def ImgToNRGBA_def deref_def image_Rect_def Pt_def Let_def
  NewFaceDetector_def ReadFile_def cParams_of_def NewContext_def draw_def

lemma DetectFaces_result:
  assumes "snd (DetectFaces core lib w fd src) \<noteq> Panic"
  shows "\<exists>pixels rows cols.
           snd (DetectFaces core lib w fd src) =
             Return (case files w (cascadeFile fd) of
                       None \<Rightarrow> Inl (PathError ''open'' (cascadeFile fd))
                     | Some bs \<Rightarrow>
                         (case Unpack core bs of
                            Inl e \<Rightarrow> Inl e
                          | Inr m \<Rightarrow>
                              Inr (ClusterDetections core m
                                     (RunCascade core m (cParams_of fd pixels rows cols) (angle fd))
                                     (iouThreshold fd))))"
proof -
  obtain w' r where eq: "DetectFaces core lib w fd src = (w', r)"
    by (cases "DetectFaces core lib w fd src")
  with assms have "r \<noteq> Panic" by simp
  with DetectFaces_cases[OF eq] show ?thesis unfolding eq snd_conv by blast
qed

text \<open>
  C2. \<open>DetectFaces\<close> returns a non-nil error only when the cascade file cannot be
  read (the path error of \<open>ioutil.ReadFile\<close>) or when \<open>Unpack\<close> rejects its bytes
  (that very error). When the file is read and unpacked, the call returns a
  detection list, empty or not, and no error: \<open>RunCascade\<close> and
  \<open>ClusterDetections\<close> have no error result.
\<close>

theorem DetectFaces_error_sources:
  "(snd (DetectFaces core lib w fd src) = Return (Inl e) \<longrightarrow>
        (files w (cascadeFile fd) = None \<and> e = PathError ''open'' (cascadeFile fd))
      \<or> (\<exists>bs. files w (cascadeFile fd) = Some bs \<and> Unpack core bs = Inl e))
   \<and> (\<forall>bs m. files w (cascadeFile fd) = Some bs \<and> Unpack core bs = Inr m
          \<and> snd (DetectFaces core lib w fd src) \<noteq> Panic \<longrightarrow>
        (\<exists>faces. snd (DetectFaces core lib w fd src) = Return (Inr faces)))"
proof (intro conjI allI impI)
  assume a: "snd (DetectFaces core lib w fd src) = Return (Inl e)"
  then have "snd (DetectFaces core lib w fd src) \<noteq> Panic" by simp
  from DetectFaces_result[OF this] a obtain pixels rows cols where
    r: "Inl e = (case files w (cascadeFile fd) of
                       None \<Rightarrow> Inl (PathError ''open'' (cascadeFile fd))
                     | Some bs \<Rightarrow>
                         (case Unpack core bs of
                            Inl e \<Rightarrow> Inl e
                          | Inr m \<Rightarrow>
                              Inr (ClusterDetections core m
                                     (RunCascade core m (cParams_of fd pixels rows cols) (angle fd))
                                     (iouThreshold fd))))"
    by auto
  show "(files w (cascadeFile fd) = None \<and> e = PathError ''open'' (cascadeFile fd))
      \<or> (\<exists>bs. files w (cascadeFile fd) = Some bs \<and> Unpack core bs = Inl e)"
  proof (cases "files w (cascadeFile fd)")
    case None
    with r show ?thesis by simp
  next
    case (Some bs)
    with r show ?thesis by (cases "Unpack core bs") simp_all
  qed
next
  fix bs m
  assume a: "files w (cascadeFile fd) = Some bs \<and> Unpack core bs = Inr m
          \<and> snd (DetectFaces core lib w fd src) \<noteq> Panic"
  then have "snd (DetectFaces core lib w fd src) \<noteq> Panic" by simp
  from DetectFaces_result[OF this] a
  show "\<exists>faces. snd (DetectFaces core lib w fd src) = Return (Inr faces)"
    by auto
qed

theorem DetectFaces_error_sources_witness:
  "snd (DetectFaces core0 lib0 (w0\<lparr>files := [''facefinder'' \<mapsto> [2]]\<rparr>) fd0 0)
      = Return (Inl (UnpackError ''bad cascade''))
   \<and> (\<exists>bs. files (w0\<lparr>files := [''facefinder'' \<mapsto> [2]]\<rparr>) (cascadeFile fd0) = Some bs
         \<and> Unpack core0 bs = Inl (UnpackError ''bad cascade''))
   \<and> files w0 (cascadeFile fd0) = Some [1] \<and> Unpack core0 [1] = Inr ()
   \<and> snd (DetectFaces core0 lib0 w0 fd0 0) \<noteq> Panic
   \<and> (\<exists>faces. snd (DetectFaces core0 lib0 w0 fd0 0) = Return (Inr faces))"
proof -
  have bad: "snd (DetectFaces core0 lib0 (w0\<lparr>files := [''facefinder'' \<mapsto> [2]]\<rparr>) fd0 0)
      = Return (Inl (UnpackError ''bad cascade''))"
    by (simp add: eval_DetectFaces)
  have good: "files w0 (cascadeFile fd0) = Some [1] \<and> Unpack core0 [1] = Inr ()
     \<and> snd (DetectFaces core0 lib0 w0 fd0 0) \<noteq> Panic"
    by (simp add: eval_DetectFaces)
  from bad good
    DetectFaces_error_sources [of core0 lib0 "w0\<lparr>files := [''facefinder'' \<mapsto> [2]]\<rparr>" fd0 0
       "UnpackError ''bad cascade''"]
    DetectFaces_error_sources [of core0 lib0 w0 fd0 0 "UnpackError ''bad cascade''"]
  show ?thesis by (simp add: NewFaceDetector_def)
qed

text \<open>
  C4, as stated, fails: nothing is kept between runs. A first run parses the
  cascade and succeeds; the file is then replaced by bytes the unpacker rejects;
  the second run reads and unpacks the new bytes and returns the unpacker's error.
\<close>

theorem DetectFaces_unpacks_again:
  "snd (DetectFaces core0 lib0 w0 fd0 0) = Return (Inr [])
   \<and> snd (DetectFaces core0 lib0
            (fst (DetectFaces core0 lib0 w0 fd0 0)\<lparr>files := [''facefinder'' \<mapsto> [2]]\<rparr>) fd0 0)
       = Return (Inl (UnpackError ''bad cascade''))"
  by (simp add: eval_DetectFaces)

text \<open>
  C4, amended. Every run of \<open>DetectFaces\<close> reads the cascade file and unpacks it
  anew. Its outcome does not depend on \<open>dc\<close>, the only variable an earlier run
  has written; unless it panics, it is the read error when the file is missing
  at that moment, the unpacker's error when the bytes read at that moment are
  rejected, and else the clustered sweep of the classifier unpacked from them.
\<close>

theorem DetectFaces_parses_per_call:
  "snd (DetectFaces core lib (w\<lparr>dc := d\<rparr>) fd src) = snd (DetectFaces core lib w fd src)
   \<and> (snd (DetectFaces core lib w fd src) \<noteq> Panic \<longrightarrow>
        (files w (cascadeFile fd) = None \<longrightarrow>
           snd (DetectFaces core lib w fd src) = Return (Inl (PathError ''open'' (cascadeFile fd))))
      \<and> (\<forall>bs e. files w (cascadeFile fd) = Some bs \<and> Unpack core bs = Inl e \<longrightarrow>
           snd (DetectFaces core lib w fd src) = Return (Inl e))
      \<and> (\<forall>bs m. files w (cascadeFile fd) = Some bs \<and> Unpack core bs = Inr m \<longrightarrow>
           (\<exists>cp. snd (DetectFaces core lib w fd src) =
              Return (Inr (ClusterDetections core m (RunCascade core m cp (angle fd))
                             (iouThreshold fd))))))"
proof (intro conjI impI allI)
  show "snd (DetectFaces core lib (w\<lparr>dc := d\<rparr>) fd src) = snd (DetectFaces core lib w fd src)"
    by (rule DetectFaces_ignores_dc)
next
  assume "snd (DetectFaces core lib w fd src) \<noteq> Panic" "files w (cascadeFile fd) = None"
  with DetectFaces_result[of core lib w fd src]
  show "snd (DetectFaces core lib w fd src) = Return (Inl (PathError ''open'' (cascadeFile fd)))"
    by auto
next
  fix bs e
  assume "snd (DetectFaces core lib w fd src) \<noteq> Panic"
    "files w (cascadeFile fd) = Some bs \<and> Unpack core bs = Inl e"
  with DetectFaces_result[of core lib w fd src]
  show "snd (DetectFaces core lib w fd src) = Return (Inl e)"
    by auto
next
  fix bs m
  assume "snd (DetectFaces core lib w fd src) \<noteq> Panic"
    "files w (cascadeFile fd) = Some bs \<and> Unpack core bs = Inr m"
  with DetectFaces_result[of core lib w fd src]
  show "\<exists>cp. snd (DetectFaces core lib w fd src) =
              Return (Inr (ClusterDetections core m (RunCascade core m cp (angle fd))
                             (iouThreshold fd)))"
    by auto
qed

theorem DetectFaces_parses_per_call_witness:
  "snd (DetectFaces core0 lib0 w0 fd0 0) \<noteq> Panic
   \<and> files w0 (cascadeFile fd0) = Some [1] \<and> Unpack core0 [1] = Inr ()
   \<and> (\<exists>cp. snd (DetectFaces core0 lib0 w0 fd0 0) =
          Return (Inr (ClusterDetections core0 () (RunCascade core0 () cp (angle fd0))
                         (iouThreshold fd0))))
   \<and> snd (DetectFaces core0 lib0 (w0\<lparr>files := Map.empty\<rparr>) fd0 0) \<noteq> Panic
   \<and> files (w0\<lparr>files := Map.empty\<rparr>) (cascadeFile fd0) = None
   \<and> snd (DetectFaces core0 lib0 (w0\<lparr>files := Map.empty\<rparr>) fd0 0)
        = Return (Inl (PathError ''open'' (cascadeFile fd0)))"
proof -
  have h1: "snd (DetectFaces core0 lib0 w0 fd0 0) \<noteq> Panic
     \<and> files w0 (cascadeFile fd0) = Some [1] \<and> Unpack core0 [1] = Inr ()"
    by (simp add: eval_DetectFaces)
  have h2: "snd (DetectFaces core0 lib0 (w0\<lparr>files := Map.empty\<rparr>) fd0 0) \<noteq> Panic
     \<and> files (w0\<lparr>files := Map.empty\<rparr>) (cascadeFile fd0) = None"
    by (simp add: eval_DetectFaces)
  from h1 h2
    DetectFaces_parses_per_call [where core = core0 and lib = lib0 and w = w0 and fd = fd0 and src = 0]
    DetectFaces_parses_per_call [where core = core0 and lib = lib0 and w = "w0\<lparr>files := Map.empty\<rparr>" and fd = fd0 and src = 0]
  show ?thesis by blast
qed

lemma DrawFaces_opened_dc:
  assumes "dc w = Some ctx" and "can_open w (destination fd)"
  shows "\<exists>w' rf. DrawFaces lib w fd faces c = (w', Return (rf, snd (draw_loop c faces ctx), None))
           \<and> dc w' = Some (fst (draw_loop c faces ctx))"
  using assms
  by (auto simp: DrawFaces_def Let_def ReadFile_def split: prod.splits)

lemma DrawFaces_not_opened:
  assumes "dc w = Some ctx" and "\<not> can_open w (destination fd)"
  shows "snd (DrawFaces lib w fd faces c) = Return ([], [], Some (PathError ''open'' (destination fd)))"
  using assms
  by (auto simp: DrawFaces_def Let_def split: prod.splits)

lemma DrawFaces_nil_dc: "dc w = None \<Longrightarrow> DrawFaces lib w fd faces c = (w, Panic)"
  by (simp add: DrawFaces_def)

text \<open>
  C3. \<open>DetectFaces\<close> returns the output of \<open>ClusterDetections\<close> as it is, with no
  test on Q. \<open>DrawFaces\<close> tests \<open>Q > 5.0\<close>: the calls it makes on \<open>dc\<close> are the
  marker calls of exactly the faces that pass, in order, and the rectangles it
  collects are those of exactly these faces, in order. With \<open>dc\<close> set and the
  destination opened it returns these rectangles and leaves \<open>dc\<close> with these
  markers; when the destination cannot be opened it returns no rectangle and the
  open error; with \<open>dc\<close> nil it panics.
\<close>

theorem score_gate_only_in_DrawFaces:
  "(\<forall>bs m. files w (cascadeFile fd) = Some bs \<and> Unpack core bs = Inr m
        \<and> snd (DetectFaces core lib w fd src) \<noteq> Panic \<longrightarrow>
      (\<exists>pixels rows cols. snd (DetectFaces core lib w fd src) =
          Return (Inr (ClusterDetections core m
                         (RunCascade core m (cParams_of fd pixels rows cols) (angle fd))
                         (iouThreshold fd)))))
   \<and> ops (fst (draw_loop isCircle faces ctx)) =
       ops ctx @ concat (map (marker_ops isCircle)
                           (filter (\<lambda>face. float_gt (Q face) (Finite 5)) faces))
   \<and> length (snd (draw_loop isCircle faces ctx)) =
       length (filter (\<lambda>face. float_gt (Q face) (Finite 5)) faces)
   \<and> (dc w = Some ctx \<longrightarrow>
        dc (fst (DrawFaces lib w fd faces isCircle)) = Some (fst (draw_loop isCircle faces ctx)))
   \<and> snd (draw_loop isCircle faces ctx) =
       map face_rect (filter (\<lambda>face. float_gt (Q face) (Finite 5)) faces)
   \<and> (dc w = Some ctx \<and> can_open w (destination fd) \<longrightarrow>
        (\<exists>w' rf. DrawFaces lib w fd faces isCircle =
            (w', Return (rf, map face_rect (filter (\<lambda>face. float_gt (Q face) (Finite 5)) faces),
                         None))
          \<and> dc w' = Some (ctx\<lparr>ops := ops ctx @ concat (map (marker_ops isCircle)
                               (filter (\<lambda>face. float_gt (Q face) (Finite 5)) faces))\<rparr>)))
   \<and> (dc w = Some ctx \<and> \<not> can_open w (destination fd) \<longrightarrow>
        snd (DrawFaces lib w fd faces isCircle) =
          Return ([], [], Some (PathError ''open'' (destination fd))))
   \<and> (dc w = None \<longrightarrow> DrawFaces lib w fd faces isCircle = (w, Panic))"
proof (intro conjI allI impI)
  fix bs m
  assume a: "files w (cascadeFile fd) = Some bs \<and> Unpack core bs = Inr m
        \<and> snd (DetectFaces core lib w fd src) \<noteq> Panic"
  then have "snd (DetectFaces core lib w fd src) \<noteq> Panic" by simp
  from DetectFaces_result[OF this] a
  show "\<exists>pixels rows cols. snd (DetectFaces core lib w fd src) =
          Return (Inr (ClusterDetections core m
                         (RunCascade core m (cParams_of fd pixels rows cols) (angle fd))
                         (iouThreshold fd)))"
    by auto
next
  show "ops (fst (draw_loop isCircle faces ctx)) =
       ops ctx @ concat (map (marker_ops isCircle)
                           (filter (\<lambda>face. float_gt (Q face) (Finite 5)) faces))"
    by (simp add: draw_loop_eq)
next
  show "length (snd (draw_loop isCircle faces ctx)) =
       length (filter (\<lambda>face. float_gt (Q face) (Finite 5)) faces)"
    by (simp add: draw_loop_eq)
next
  assume "dc w = Some ctx"
  then show "dc (fst (DrawFaces lib w fd faces isCircle)) = Some (fst (draw_loop isCircle faces ctx))"
    by (rule DrawFaces_dc)
next
  show "snd (draw_loop isCircle faces ctx) =
       map face_rect (filter (\<lambda>face. float_gt (Q face) (Finite 5)) faces)"
    by (simp add: draw_loop_eq)
next
  assume a: "dc w = Some ctx \<and> can_open w (destination fd)"
  then have 1: "dc w = Some ctx" and 2: "can_open w (destination fd)" by simp_all
  from DrawFaces_opened_dc[OF 1 2, of lib faces isCircle]
  show "\<exists>w' rf. DrawFaces lib w fd faces isCircle =
            (w', Return (rf, map face_rect (filter (\<lambda>face. float_gt (Q face) (Finite 5)) faces),
                         None))
          \<and> dc w' = Some (ctx\<lparr>ops := ops ctx @ concat (map (marker_ops isCircle)
                               (filter (\<lambda>face. float_gt (Q face) (Finite 5)) faces))\<rparr>)"
    by (simp add: draw_loop_eq)
next
  assume a: "dc w = Some ctx \<and> \<not> can_open w (destination fd)"
  then show "snd (DrawFaces lib w fd faces isCircle) =
          Return ([], [], Some (PathError ''open'' (destination fd)))"
    by (simp add: DrawFaces_not_opened)
next
  assume "dc w = None"
  then show "DrawFaces lib w fd faces isCircle = (w, Panic)" by (rule DrawFaces_nil_dc)
qed

theorem score_gate_only_in_DrawFaces_witness:
  "files w0 (cascadeFile fd0) = Some [1] \<and> Unpack core1 [1] = Inr ()
   \<and> snd (DetectFaces core1 lib0 w0 fd0 0) \<noteq> Panic
   \<and> snd (DetectFaces core1 lib0 w0 fd0 0)
       = Return (Inr [\<lparr>Row = 10, Col = 10, Scale = 4, Q = Finite 1\<rparr>])
   \<and> dc w1 = Some (NewContext 1 1)
   \<and> dc (fst (DrawFaces lib0 w1 fd0 [face_lo, face_hi] True))
       = Some \<lparr>ctx_width = 1, ctx_height = 1,
               ops = [OpDrawArc 50 100 20, OpSetLineWidth, OpSetStrokeStyle, OpStroke]\<rparr>
   \<and> can_open w1 (destination fd0)
   \<and> (\<exists>w' rf. DrawFaces lib0 w1 fd0 [face_lo, face_hi] True =
          (w', Return (rf, [\<lparr>MinP = Pt 30 40, MaxP = Pt 40 80\<rparr>], None))
        \<and> dc w' = Some \<lparr>ctx_width = 1, ctx_height = 1,
               ops = [OpDrawArc 50 100 20, OpSetLineWidth, OpSetStrokeStyle, OpStroke]\<rparr>)
   \<and> snd (DrawFaces lib0 (w1\<lparr>can_open := (\<lambda>p. False)\<rparr>) fd0 [face_lo, face_hi] True) =
        Return ([], [], Some (PathError ''open'' ''out.png''))
   \<and> dc w0 = None
   \<and> DrawFaces lib0 w0 fd0 [face_lo, face_hi] True = (w0, Panic)"
proof -
  have h: "files w0 (cascadeFile fd0) = Some [1] \<and> Unpack core1 [1] = Inr ()
     \<and> snd (DetectFaces core1 lib0 w0 fd0 0) \<noteq> Panic"
    by (simp add: eval_DetectFaces)
  have d: "dc w1 = Some (NewContext 1 1) \<and> can_open w1 (destination fd0)" by simp
  have d2: "dc (w1\<lparr>can_open := (\<lambda>p. False)\<rparr>) = Some (NewContext 1 1)
     \<and> \<not> can_open (w1\<lparr>can_open := (\<lambda>p. False)\<rparr>) (destination fd0)" by simp
  have d0: "dc w0 = None" by simp
  note A = score_gate_only_in_DrawFaces [where w = w0 and fd = fd0 and core = core1 and lib = lib0
      and src = 0 and isCircle = True and faces = "[face_lo, face_hi]"]
  note B = score_gate_only_in_DrawFaces [where w = w1 and fd = fd0 and lib = lib0
      and isCircle = True and faces = "[face_lo, face_hi]" and ctx = "NewContext 1 1"]
  note C = score_gate_only_in_DrawFaces [where w = "w1\<lparr>can_open := (\<lambda>p. False)\<rparr>" and fd = fd0
      and lib = lib0 and isCircle = True and faces = "[face_lo, face_hi]" and ctx = "NewContext 1 1"]
  from h A have "\<exists>pixels rows cols. snd (DetectFaces core1 lib0 w0 fd0 0) =
          Return (Inr (ClusterDetections core1 ()
                         (RunCascade core1 () (cParams_of fd0 pixels rows cols) (angle fd0))
                         (iouThreshold fd0)))"
    by blast
  then have a: "snd (DetectFaces core1 lib0 w0 fd0 0)
       = Return (Inr [\<lparr>Row = 10, Col = 10, Scale = 4, Q = Finite 1\<rparr>])"
    by simp
  from d0 A have p: "DrawFaces lib0 w0 fd0 [face_lo, face_hi] True = (w0, Panic)" by blast
  from d B have "dc (fst (DrawFaces lib0 w1 fd0 [face_lo, face_hi] True))
       = Some (fst (draw_loop True [face_lo, face_hi] (NewContext 1 1)))"
    by blast
  then have b1: "dc (fst (DrawFaces lib0 w1 fd0 [face_lo, face_hi] True))
       = Some \<lparr>ctx_width = 1, ctx_height = 1,
               ops = [OpDrawArc 50 100 20, OpSetLineWidth, OpSetStrokeStyle, OpStroke]\<rparr>"
    by (simp add: marker_ops_def NewContext_def quot_def draw_loop_eq)
  from d B have "\<exists>w' rf. DrawFaces lib0 w1 fd0 [face_lo, face_hi] True =
            (w', Return (rf, map face_rect (filter (\<lambda>face. float_gt (Q face) (Finite 5))
                                               [face_lo, face_hi]), None))
          \<and> dc w' = Some ((NewContext 1 1)\<lparr>ops := ops (NewContext 1 1) @ concat (map (marker_ops True)
                               (filter (\<lambda>face. float_gt (Q face) (Finite 5)) [face_lo, face_hi]))\<rparr>)"
    by blast
  then have b2: "\<exists>w' rf. DrawFaces lib0 w1 fd0 [face_lo, face_hi] True =
          (w', Return (rf, [\<lparr>MinP = Pt 30 40, MaxP = Pt 40 80\<rparr>], None))
        \<and> dc w' = Some \<lparr>ctx_width = 1, ctx_height = 1,
               ops = [OpDrawArc 50 100 20, OpSetLineWidth, OpSetStrokeStyle, OpStroke]\<rparr>"
    by (simp add: marker_ops_def NewContext_def quot_def face_rect_def image_Rect_def)
  from d2 C have "snd (DrawFaces lib0 (w1\<lparr>can_open := (\<lambda>p. False)\<rparr>) fd0 [face_lo, face_hi] True) =
        Return ([], [], Some (PathError ''open'' (destination fd0)))"
    by blast
  then have c: "snd (DrawFaces lib0 (w1\<lparr>can_open := (\<lambda>p. False)\<rparr>) fd0 [face_lo, face_hi] True) =
        Return ([], [], Some (PathError ''open'' ''out.png''))"
    by (simp add: NewFaceDetector_def)
  from h a d b1 b2 c d0 p show ?thesis by blast
qed


text \<open>
  C10. The rectangles \<open>DrawFaces\<close> collects, and returns when the destination can
  be opened, are \<open>image.Rect(Col - Scale/2, Row - Scale/2, Scale, Scale)\<close> for the
  faces with \<open>Q > 5.0\<close> and only those, in order. The second corner is the point
  (Scale, Scale): for the face at row 100, column 50 of scale 40 the rectangle
  spans (30, 40) to (40, 80), which is neither 40 by 40 nor centred at (50, 100).
\<close>

theorem DrawFaces_rectangles:
  "snd (draw_loop isCircle faces ctx) =
     map (\<lambda>face. image_Rect (Col face - quot (Scale face) 2) (Row face - quot (Scale face) 2)
                             (Scale face) (Scale face))
         (filter (\<lambda>face. float_gt (Q face) (Finite 5)) faces)
   \<and> (dc w = Some ctx \<and> can_open w (destination fd) \<longrightarrow>
        (\<exists>w' rf. DrawFaces lib w fd faces isCircle =
           (w', Return (rf,
              map (\<lambda>face. image_Rect (Col face - quot (Scale face) 2) (Row face - quot (Scale face) 2)
                                      (Scale face) (Scale face))
                  (filter (\<lambda>face. float_gt (Q face) (Finite 5)) faces), None))))
   \<and> snd (draw_loop isCircle [face_hi] ctx) = [\<lparr>MinP = Pt 30 40, MaxP = Pt 40 80\<rparr>]"
proof (intro conjI impI)
  show r: "snd (draw_loop isCircle faces ctx) =
     map (\<lambda>face. image_Rect (Col face - quot (Scale face) 2) (Row face - quot (Scale face) 2)
                             (Scale face) (Scale face))
         (filter (\<lambda>face. float_gt (Q face) (Finite 5)) faces)"
    by (simp add: draw_loop_eq face_rect_def[abs_def])
  assume "dc w = Some ctx \<and> can_open w (destination fd)"
  then have "\<exists>w' rf. DrawFaces lib w fd faces isCircle =
      (w', Return (rf, snd (draw_loop isCircle faces ctx), None))"
    by (simp add: DrawFaces_opened)
  then show "\<exists>w' rf. DrawFaces lib w fd faces isCircle =
           (w', Return (rf,
              map (\<lambda>face. image_Rect (Col face - quot (Scale face) 2) (Row face - quot (Scale face) 2)
                                      (Scale face) (Scale face))
                  (filter (\<lambda>face. float_gt (Q face) (Finite 5)) faces), None))"
    by (simp only: r)
next
  show "snd (draw_loop isCircle [face_hi] ctx) = [\<lparr>MinP = Pt 30 40, MaxP = Pt 40 80\<rparr>]"
    by (simp add: draw_loop_eq face_rect_def image_Rect_def quot_def)
qed

theorem DrawFaces_rectangles_witness:
  "dc w1 = Some (NewContext 1 1) \<and> can_open w1 (destination fd0)
   \<and> (\<exists>w' rf. DrawFaces lib0 w1 fd0 [face_lo, face_hi] False =
         (w', Return (rf, [\<lparr>MinP = Pt 30 40, MaxP = Pt 40 80\<rparr>], None)))"
proof -
  have h: "dc w1 = Some (NewContext 1 1) \<and> can_open w1 (destination fd0)" by simp
  from h DrawFaces_rectangles [where isCircle = False and faces = "[face_lo, face_hi]" and ctx = "NewContext 1 1" and w = w1 and fd = fd0 and lib = lib0]
  show ?thesis by (simp add: image_Rect_def quot_def)
qed

section \<open>Properties of the deserializer\<close>

lemma read_bytes_None: "read_bytes n bs = None \<longleftrightarrow> length bs < n"
  by (simp add: read_bytes_def)

lemma read_bytes_Some: "read_bytes n bs = Some (f, r) \<Longrightarrow> f = take n bs \<and> r = drop n bs \<and> n \<le> length bs"
  by (auto simp: read_bytes_def split: if_splits)

lemma fixed_read_word32: "fixed_reader 4 read_word32"
  by (auto simp: fixed_reader_def read_word32_def read_bytes_def split: if_splits)

lemma fixed_read_node: "fixed_reader 4 read_node"
  by (auto simp: fixed_reader_def read_node_def read_bytes_def split: if_splits)

lemma fixed_readerD1: "fixed_reader k rd \<Longrightarrow> rd bs = None \<Longrightarrow> length bs < k"
  by (simp add: fixed_reader_def)

lemma fixed_readerD2: "fixed_reader k rd \<Longrightarrow> rd bs = Some (v, r) \<Longrightarrow> r = drop k bs \<and> k \<le> length bs"
proof -
  assume f: "fixed_reader k rd" and s: "rd bs = Some (v, r)"
  from f have a: "(rd bs = None) = (length bs < k)" by (simp add: fixed_reader_def)
  from f s have b: "r = drop k bs" unfolding fixed_reader_def by blast
  from a s have "\<not> length bs < k" by simp
  with b show ?thesis by simp
qed

lemma read_many_fixed:
  assumes "fixed_reader k rd"
  shows "(read_many n rd bs = None \<longleftrightarrow> length bs < n * k)
      \<and> (\<forall>v r. read_many n rd bs = Some (v, r) \<longrightarrow> r = drop (n * k) bs)"
proof (induction n arbitrary: bs)
  case 0
  show ?case by simp
next
  case (Suc n)
  show ?case
  proof (cases "rd bs")
    case None
    with assms have "length bs < k" by (rule fixed_readerD1)
    then have "length bs < Suc n * k" by (simp add: trans_less_add1)
    with None show ?thesis by simp
  next
    case (Some a)
    obtain v r where a: "a = (v, r)" by (cases a)
    from fixed_readerD2[OF assms Some[unfolded a]] have r: "r = drop k bs" and k: "k \<le> length bs"
      by simp_all
    have len: "length r = length bs - k" using r by simp
    show ?thesis
    proof (cases "read_many n rd r")
      case None
      with Suc.IH[of r] have "length r < n * k" by simp
      with len k have "length bs < Suc n * k" by simp
      with None Some a show ?thesis by simp
    next
      case (Some b)
      obtain vs r' where b: "b = (vs, r')" by (cases b)
      from Suc.IH[of r] Some b have n1: "\<not> length r < n * k" and r': "r' = drop (n * k) r" by auto
      from n1 len k have "\<not> length bs < Suc n * k" by simp
      moreover have "r' = drop (Suc n * k) bs" using r' r by (simp add: add.commute)
      ultimately show ?thesis using Some b \<open>rd bs = Some a\<close> a by simp
    qed
  qed
qed

lemma fixed_read_many: "fixed_reader k rd \<Longrightarrow> fixed_reader (n * k) (read_many n rd)"
  unfolding fixed_reader_def[of "n * k"] using read_many_fixed by blast

lemma read_many_length: "read_many n rd bs = Some (vs, r) \<Longrightarrow> length vs = n"
  by (induction n arbitrary: bs vs r) (auto split: option.splits)

lemma fixed_read_tree: "fixed_reader (tree_bytes d) (read_tree d)"
proof -
  let ?a = "(2 ^ d - 1) * 4" and ?b = "2 ^ d * (4::nat)"
  have A: "fixed_reader ?a (read_many (2 ^ d - 1) read_node)"
    by (rule fixed_read_many[OF fixed_read_node])
  have B: "fixed_reader ?b (read_many (2 ^ d) read_word32)"
    by (rule fixed_read_many[OF fixed_read_word32])
  note C = fixed_read_word32
  have "(read_tree d bs = None \<longleftrightarrow> length bs < tree_bytes d)
      \<and> (\<forall>v r. read_tree d bs = Some (v, r) \<longrightarrow> r = drop (tree_bytes d) bs)" for bs
  proof (cases "read_many (2 ^ d - 1) read_node bs")
    case None
    from fixed_readerD1[OF A None] have "length bs < tree_bytes d"
      by (simp add: tree_bytes_def)
    with None show ?thesis by (simp add: read_tree_def)
  next
    case (Some x)
    obtain ns r1 where x: "x = (ns, r1)" by (cases x)
    from fixed_readerD2[OF A Some[unfolded x]] have r1: "r1 = drop ?a bs" and l1: "?a \<le> length bs"
      by simp_all
    show ?thesis
    proof (cases "read_many (2 ^ d) read_word32 r1")
      case None
      from fixed_readerD1[OF B None] r1 l1 have "length bs < tree_bytes d"
        by (simp add: tree_bytes_def)
      with None Some x show ?thesis by (simp add: read_tree_def)
    next
      case (Some y)
      obtain ls r2 where y: "y = (ls, r2)" by (cases y)
      from fixed_readerD2[OF B Some[unfolded y]] have r2: "r2 = drop ?b r1" and l2: "?b \<le> length r1"
        by simp_all
      show ?thesis
      proof (cases "read_word32 r2")
        case None
        from fixed_readerD1[OF C None] r2 l2 r1 l1 have "length bs < tree_bytes d"
          by (simp add: tree_bytes_def)
        with None Some y \<open>read_many (2 ^ d - 1) read_node bs = Some x\<close> x show ?thesis
          by (simp add: read_tree_def)
      next
        case (Some z)
        obtain th r3 where z: "z = (th, r3)" by (cases z)
        from fixed_readerD2[OF C Some[unfolded z]] have r3: "r3 = drop 4 r2" and l3: "4 \<le> length r2"
          by simp_all
        from r1 r2 r3 have "r3 = drop (tree_bytes d) bs"
          by (simp add: tree_bytes_def add.commute add.left_commute)
        moreover from l1 l2 l3 r1 r2 have "\<not> length bs < tree_bytes d"
          by (simp add: tree_bytes_def)
        ultimately show ?thesis
          using Some z \<open>read_many (2 ^ d) read_word32 r1 = Some y\<close> y
            \<open>read_many (2 ^ d - 1) read_node bs = Some x\<close> x
          by (simp add: read_tree_def)
      qed
    qed
  qed
  then show ?thesis unfolding fixed_reader_def by blast
qed

lemma read_header:
  assumes "16 \<le> length bs"
  shows "read_bytes 8 bs = Some (take 8 bs, drop 8 bs)"
    and "read_word32 (drop 8 bs) = Some (le32 (take 4 (drop 8 bs)), drop 12 bs)"
    and "read_word32 (drop 12 bs) = Some (le32 (take 4 (drop 12 bs)), drop 16 bs)"
  using assms by (simp_all add: read_bytes_def read_word32_def)

lemma parse_short_header:
  assumes "length bs < 16"
  shows "parse_cascade c bs = Inl TruncatedStream"
proof (cases "length bs < 8")
  case True
  then show ?thesis by (simp add: parse_cascade_def read_bytes_def)
next
  case False
  note l8 = this
  show ?thesis
  proof (cases "length bs < 12")
    case True
    with l8 show ?thesis by (simp add: parse_cascade_def read_bytes_def read_word32_def)
  next
    case False
    with l8 assms show ?thesis
      by (simp add: parse_cascade_def read_bytes_def read_word32_def)
  qed
qed

lemma parse_after_header:
  assumes "16 \<le> length bs"
  shows "parse_cascade c bs =
     (if header_depth bs \<le> 0 \<or> header_count bs \<le> 0 \<or> header_depth bs > c then Inl InvalidShape
      else (case read_many (nat (header_count bs)) (read_tree (nat (header_depth bs))) (drop 16 bs) of
              None \<Rightarrow> Inl TruncatedStream
            | Some (ts, rest) \<Rightarrow>
                Inr \<lparr>tree_depth = nat (header_depth bs), tree_count = nat (header_count bs),
                     trees = ts\<rparr>))"
  unfolding parse_cascade_def header_depth_def header_count_def
  by (simp add: read_header[OF assms])

text \<open>
  C5. \<open>parse_cascade\<close> returns \<open>TruncatedStream\<close> when the 16 header bytes are not
  all there, \<open>InvalidShape\<close> when the header read declares a depth or a count that
  is not positive or a depth above the ceiling, and \<open>TruncatedStream\<close> again when
  the shape is valid and the stream ends before the last field of the last tree.
  In all these cases the result is an error; in the remaining one it is a model
  of the declared depth and count.
\<close>

theorem parse_cascade_errors:
  "(length bs < 16 \<longrightarrow> parse_cascade c bs = Inl TruncatedStream)
   \<and> (16 \<le> length bs \<and> (header_depth bs \<le> 0 \<or> header_count bs \<le> 0 \<or> c < header_depth bs)
        \<longrightarrow> parse_cascade c bs = Inl InvalidShape)
   \<and> (16 \<le> length bs \<and> 0 < header_depth bs \<and> header_depth bs \<le> c \<and> 0 < header_count bs
        \<and> length bs < 16 + nat (header_count bs) * tree_bytes (nat (header_depth bs))
        \<longrightarrow> parse_cascade c bs = Inl TruncatedStream)
   \<and> (16 \<le> length bs \<and> 0 < header_depth bs \<and> header_depth bs \<le> c \<and> 0 < header_count bs
        \<and> 16 + nat (header_count bs) * tree_bytes (nat (header_depth bs)) \<le> length bs
        \<longrightarrow> (\<exists>m. parse_cascade c bs = Inr m
                \<and> int (tree_depth m) = header_depth bs \<and> int (tree_count m) = header_count bs
                \<and> length (trees m) = tree_count m))"
proof (intro conjI impI)
  assume "length bs < 16"
  then show "parse_cascade c bs = Inl TruncatedStream" by (rule parse_short_header)
next
  assume "16 \<le> length bs \<and> (header_depth bs \<le> 0 \<or> header_count bs \<le> 0 \<or> c < header_depth bs)"
  then show "parse_cascade c bs = Inl InvalidShape"
    by (auto simp: parse_after_header)
next
  let ?n = "nat (header_count bs)" and ?d = "nat (header_depth bs)"
  have F: "fixed_reader (?n * tree_bytes ?d) (read_many ?n (read_tree ?d))"
    by (rule fixed_read_many[OF fixed_read_tree])
  {
    assume a: "16 \<le> length bs \<and> 0 < header_depth bs \<and> header_depth bs \<le> c \<and> 0 < header_count bs
        \<and> length bs < 16 + ?n * tree_bytes ?d"
    then have "length (drop 16 bs) < ?n * tree_bytes ?d"
      unfolding length_drop by linarith
    with F have "read_many ?n (read_tree ?d) (drop 16 bs) = None"
      unfolding fixed_reader_def by blast
    with a show "parse_cascade c bs = Inl TruncatedStream"
      by (simp add: parse_after_header)
  }
  {
    assume a: "16 \<le> length bs \<and> 0 < header_depth bs \<and> header_depth bs \<le> c \<and> 0 < header_count bs
        \<and> 16 + ?n * tree_bytes ?d \<le> length bs"
    then have "\<not> length (drop 16 bs) < ?n * tree_bytes ?d"
      unfolding length_drop by linarith
    with F have "read_many ?n (read_tree ?d) (drop 16 bs) \<noteq> None"
      unfolding fixed_reader_def by blast
    then obtain ts rest where r: "read_many ?n (read_tree ?d) (drop 16 bs) = Some (ts, rest)"
      by (cases "read_many ?n (read_tree ?d) (drop 16 bs)") auto
    from read_many_length[OF r] have "length ts = ?n" .
    with a r show "\<exists>m. parse_cascade c bs = Inr m
                \<and> int (tree_depth m) = header_depth bs \<and> int (tree_count m) = header_count bs
                \<and> length (trees m) = tree_count m"
      by (simp add: parse_after_header)
  }
qed

lemmas eval_header = header_depth_def header_count_def le32_def tree_bytes_def

theorem parse_cascade_errors_witness:
  "length (take 15 stream_ok) < 16
   \<and> parse_cascade 16 (take 15 stream_ok) = Inl TruncatedStream
   \<and> 16 \<le> length [0,0,0,0,0,0,0,0, 17,0,0,0, 1,0,0,0 :: byte]
   \<and> 16 < header_depth [0,0,0,0,0,0,0,0, 17,0,0,0, 1,0,0,0]
   \<and> parse_cascade 16 [0,0,0,0,0,0,0,0, 17,0,0,0, 1,0,0,0] = Inl InvalidShape
   \<and> header_depth (take 27 stream_ok) = 1 \<and> header_count (take 27 stream_ok) = 1
   \<and> length (take 27 stream_ok) < 16 + nat 1 * tree_bytes (nat 1)
   \<and> parse_cascade 16 (take 27 stream_ok) = Inl TruncatedStream
   \<and> 16 + nat 1 * tree_bytes (nat 1) \<le> length stream_ok
   \<and> (\<exists>m. parse_cascade 16 stream_ok = Inr m \<and> int (tree_depth m) = 1 \<and> int (tree_count m) = 1
          \<and> length (trees m) = tree_count m)"
proof -
  have h1: "length (take 15 stream_ok) < 16" by simp
  have h2: "16 \<le> length [0,0,0,0,0,0,0,0, 17,0,0,0, 1,0,0,0 :: byte]
     \<and> 16 < header_depth [0,0,0,0,0,0,0,0, 17,0,0,0, 1,0,0,0]"
    by (simp add: eval_header)
  have h3: "header_depth (take 27 stream_ok) = 1 \<and> header_count (take 27 stream_ok) = 1
     \<and> length (take 27 stream_ok) < 16 + nat 1 * tree_bytes (nat 1)"
    by (simp add: eval_header)
  have h4: "header_depth stream_ok = 1 \<and> header_count stream_ok = 1
     \<and> 16 + nat 1 * tree_bytes (nat 1) \<le> length stream_ok"
    by (simp add: eval_header)
  from h1 h2 h3 h4
    parse_cascade_errors [of "take 15 stream_ok" 16]
    parse_cascade_errors [of "[0,0,0,0,0,0,0,0, 17,0,0,0, 1,0,0,0]" 16]
    parse_cascade_errors [of "take 27 stream_ok" 16]
    parse_cascade_errors [of stream_ok 16]
  show ?thesis by simp
qed

section \<open>Properties of the sweep\<close>

lemma positions_bounds: "x \<in> set (positions step lo hi) \<Longrightarrow> lo \<le> x \<and> x \<le> hi"
proof (induction step lo hi rule: positions.induct)
  case (1 step lo hi)
  show ?case
  proof (cases "step < 1 \<or> hi < lo")
    case True
    with "1.prems" show ?thesis by (subst (asm) positions.simps) simp
  next
    case False
    with "1.prems" have "x = lo \<or> x \<in> set (positions step (lo + step) hi)"
      by (subst (asm) positions.simps) simp
    then show ?thesis
    proof
      assume "x = lo" with False show ?thesis by simp
    next
      assume "x \<in> set (positions step (lo + step) hi)"
      from "1.IH"[OF False this] False show ?thesis by simp
    qed
  qed
qed

lemma sweep_scale_mem:
  assumes "d \<in> set (sweep_scale classify p rows cols s)"
  shows "scale d = s \<and> s div 2 \<le> row d \<and> row d \<le> rows - s div 2
       \<and> s div 2 \<le> col d \<and> col d \<le> cols - s div 2"
proof -
  from assms obtain r c v where
    r: "r \<in> set (positions (step_of p s) (s div 2) (rows - s div 2))" and
    c: "c \<in> set (positions (step_of p s) (s div 2) (cols - s div 2))" and
    d: "d = \<lparr>row = r, col = c, scale = s, q = v\<rparr>"
    by (auto simp: sweep_scale_def split: option.splits)
  from positions_bounds[OF r] positions_bounds[OF c] d show ?thesis by simp
qed

lemma next_scale_grows:
  assumes "1 < scale_factor p" and "0 < s"
  shows "s < next_scale p s"
proof -
  have "of_int s * 1 \<le> of_int s * scale_factor p"
    using assms by (intro mult_left_mono) simp_all
  then have "(of_int s :: rat) \<le> of_int s * scale_factor p" by simp
  then have "s \<le> \<lfloor>of_int s * scale_factor p\<rfloor>" by (simp add: le_floor_iff)
  then show ?thesis by (simp add: next_scale_def Let_def)
qed

lemma scale_loop_terminates:
  assumes "1 < scale_factor p" and "0 < s" and "min_size p \<le> s"
    and "\<forall>d \<in> set acc. in_window p rows cols d"
  shows "\<exists>ds. scale_loop classify p rows cols s acc = Some ds
            \<and> (\<forall>d \<in> set ds. in_window p rows cols d)"
  using assms(2-)
proof (induction "nat (max_size p + 1 - s)" arbitrary: s acc rule: less_induct)
  case less
  show ?case
  proof (cases "s \<le> max_size p")
    case False
    then have "scale_loop classify p rows cols s acc = Some acc"
      by (subst scale_loop.simps) simp
    with less.prems show ?thesis by simp
  next
    case True
    let ?s' = "next_scale p s"
    let ?acc' = "acc @ sweep_scale classify p rows cols s"
    have g: "s < ?s'" using assms(1) less.prems(1) by (rule next_scale_grows)
    have m: "nat (max_size p + 1 - ?s') < nat (max_size p + 1 - s)" using g True by simp
    have w: "\<forall>d \<in> set ?acc'. in_window p rows cols d"
    proof
      fix d assume "d \<in> set ?acc'"
      then consider "d \<in> set acc" | "d \<in> set (sweep_scale classify p rows cols s)" by auto
      then show "in_window p rows cols d"
      proof cases
        case 1 with less.prems show ?thesis by simp
      next
        case 2
        from sweep_scale_mem[OF 2] True less.prems(2) show ?thesis
          by (simp add: in_window_def)
      qed
    qed
    from less.hyps[OF m _ _ w] g less.prems
    obtain ds where "scale_loop classify p rows cols ?s' ?acc' = Some ds"
      "\<forall>d \<in> set ds. in_window p rows cols d" by force
    moreover have "scale_loop classify p rows cols s acc = scale_loop classify p rows cols ?s' ?acc'"
      using True by (subst scale_loop.simps) simp
    ultimately show ?thesis by simp
  qed
qed

lemma scale_loop_step:
  "s \<le> max_size p \<Longrightarrow>
     scale_loop classify p rows cols s acc =
     scale_loop classify p rows cols (next_scale p s) (acc @ sweep_scale classify p rows cols s)"
  by (subst scale_loop.simps) simp

lemma scale_loop_stop:
  "\<not> s \<le> max_size p \<Longrightarrow> scale_loop classify p rows cols s acc = Some acc"
  by (subst scale_loop.simps) simp

lemma positions_step:
  "1 \<le> step \<Longrightarrow> lo \<le> hi \<Longrightarrow> positions step lo hi = lo # positions step (lo + step) hi"
  by (subst positions.simps) simp

lemma positions_stop:
  "step < 1 \<or> hi < lo \<Longrightarrow> positions step lo hi = []"
  by (subst positions.simps) simp

lemma floor_rat_numeral_divide:
  "\<lfloor>numeral a / numeral b :: rat\<rfloor> = numeral a div numeral b"
  by (metis floor_divide_of_int_eq of_int_numeral)

lemmas eval_sweep =
  floor_rat_numeral_divide run_cascade_def scale_loop_step scale_loop_stop positions_step positions_stop
  sweep_scale_def step_of_def next_scale_def params_ok_def Let_def

text \<open>
  C6, as stated, fails for a smallest window of side 1, which the invariants
  allow: with \<open>s = 1\<close> the loops run from \<open>s/2 = 0\<close> to \<open>rows - 0\<close> and \<open>cols - 0\<close>.
  On a 1-by-1 image with a classifier that accepts everything the sweep reports
  centres in row 0 and column 0, and the centre (1, 1), whose row is not below
  \<open>rows = 1\<close>.
\<close>

theorem run_cascade_centre_on_border:
  "params_ok params1
   \<and> run_cascade (\<lambda>r c s. Some 1) params1 1 1 =
       Some [\<lparr>row = 0, col = 0, scale = 1, q = 1\<rparr>, \<lparr>row = 0, col = 1, scale = 1, q = 1\<rparr>,
             \<lparr>row = 1, col = 0, scale = 1, q = 1\<rparr>, \<lparr>row = 1, col = 1, scale = 1, q = 1\<rparr>]
   \<and> \<not> row \<lparr>row = 1, col = 1, scale = 1, q = 1\<rparr> < 1"
  by (simp add: eval_sweep)

text \<open>
  C6, amended. For parameters satisfying I1 and I2 the sweep ends, and every
  detection it reports has \<open>min_size \<le> scale \<le> max_size\<close> and a centre with
  \<open>scale/2 \<le> row \<le> rows - scale/2\<close> and \<open>scale/2 \<le> col \<le> cols - scale/2\<close>; when
  moreover \<open>min_size \<ge> 2\<close>, every centre is strictly inside the image:
  \<open>0 < row < rows\<close> and \<open>0 < col < cols\<close>.
\<close>

theorem run_cascade_detections_in_range:
  assumes "params_ok p"
  shows "\<exists>ds. run_cascade classify p rows cols = Some ds
     \<and> (\<forall>d \<in> set ds. min_size p \<le> scale d \<and> scale d \<le> max_size p
           \<and> scale d div 2 \<le> row d \<and> row d \<le> rows - scale d div 2
           \<and> scale d div 2 \<le> col d \<and> col d \<le> cols - scale d div 2)
     \<and> (2 \<le> min_size p \<longrightarrow>
           (\<forall>d \<in> set ds. 0 < row d \<and> row d < rows \<and> 0 < col d \<and> col d < cols))"
proof -
  from assms have sf: "1 < scale_factor p" and pos: "0 < min_size p"
    by (simp_all add: params_ok_def)
  have "\<forall>d \<in> set []. in_window p rows cols d" by simp
  from scale_loop_terminates[OF sf pos order_refl this, of classify]
  obtain ds where ds: "run_cascade classify p rows cols = Some ds"
    and w: "\<forall>d \<in> set ds. in_window p rows cols d"
    unfolding run_cascade_def by blast
  have inside: "0 < row d \<and> row d < rows \<and> 0 < col d \<and> col d < cols"
    if "2 \<le> min_size p" and "d \<in> set ds" for d
  proof -
    from w that(2) have i: "in_window p rows cols d" by simp
    with that(1) have "2 \<le> scale d" by (simp add: in_window_def)
    then have "1 \<le> scale d div 2" by simp
    with i show ?thesis by (simp add: in_window_def)
  qed
  from ds w inside show ?thesis by (auto simp: in_window_def)
qed

theorem run_cascade_detections_in_range_witness:
  "params_ok params2 \<and> 2 \<le> min_size params2
   \<and> (\<exists>ds. run_cascade (\<lambda>r c s. if r = c then Some 1 else None) params2 3 3 = Some ds
     \<and> (\<forall>d \<in> set ds. min_size params2 \<le> scale d \<and> scale d \<le> max_size params2
           \<and> scale d div 2 \<le> row d \<and> row d \<le> 3 - scale d div 2
           \<and> scale d div 2 \<le> col d \<and> col d \<le> 3 - scale d div 2)
     \<and> (\<forall>d \<in> set ds. 0 < row d \<and> row d < 3 \<and> 0 < col d \<and> col d < 3))"
proof -
  have h: "params_ok params2 \<and> 2 \<le> min_size params2" by (simp add: params_ok_def)
  from h run_cascade_detections_in_range [of params2 "\<lambda>r c s. if r = c then Some 1 else None" 3 3]
  show ?thesis by simp
qed

section \<open>Properties of the clusterer\<close>

lemmas eval_cluster =
  cluster_def components_def link_def index_pairs_def union_labels_def joined_def iou_def
  clamp01_def representative_def trunc_def Let_def floor_rat_numeral_divide


lemma fold_link_unjoined:
  "\<forall>ij \<in> set ps. \<not> joined t (ds ! fst ij) (ds ! snd ij) \<Longrightarrow> fold (link t ds) ps ls = ls"
  by (induction ps arbitrary: ls) (auto simp: link_def)

lemma components_separated: "separated t ds \<Longrightarrow> components t ds = [0..<length ds]"
  unfolding components_def separated_def by (rule fold_link_unjoined)

lemma trunc_of_int: "trunc (of_int k) = k"
  by (simp add: trunc_def)

lemma representative_single:
  assumes "q d \<noteq> 0"
  shows "representative [d] = d"
proof -
  have "trunc (q d * of_int k / q d) = k" for k
    using assms by (simp add: trunc_of_int)
  then show ?thesis by (simp add: representative_def)
qed

lemma filter_eq_upt: "k < n \<Longrightarrow> filter (\<lambda>j. j = k) [0..<n] = [k]"
proof (induction n)
  case 0
  then show ?case by simp
next
  case (Suc n)
  show ?case
  proof (cases "k = n")
    case True
    have "filter (\<lambda>j. j = n) [0..<n] = []" by (simp add: filter_empty_conv)
    with True show ?thesis by simp
  next
    case False
    with Suc.prems have "k < n" by simp
    with Suc.IH False show ?thesis by simp
  qed
qed

lemma cluster_separated:
  assumes "separated t ds" and "\<forall>d \<in> set ds. q d \<noteq> 0"
  shows "cluster ds t = ds"
proof -
  let ?n = "length ds"
  have roots: "filter (\<lambda>k. [0..<?n] ! k = k) [0..<?n] = [0..<?n]"
    by (rule filter_True) simp
  have members: "filter (\<lambda>j. [0..<?n] ! j = k) [0..<?n] = [k]" if "k < ?n" for k
  proof -
    have "filter (\<lambda>j. [0..<?n] ! j = k) [0..<?n] = filter (\<lambda>j. j = k) [0..<?n]"
      by (rule filter_cong) simp_all
    with that show ?thesis by (simp add: filter_eq_upt)
  qed
  have "map (\<lambda>k. representative (map (\<lambda>j. ds ! j) (filter (\<lambda>j. [0..<?n] ! j = k) [0..<?n]))) [0..<?n]
      = map (\<lambda>k. ds ! k) [0..<?n]"
  proof (rule map_cong[OF refl])
    fix k assume "k \<in> set [0..<?n]"
    then have k: "k < ?n" by simp
    with assms(2) have "q (ds ! k) \<noteq> 0" by simp
    with members[OF k] show "representative (map (\<lambda>j. ds ! j) (filter (\<lambda>j. [0..<?n] ! j = k) [0..<?n])) = ds ! k"
      by (simp add: representative_single)
  qed
  also have "\<dots> = ds" by (rule map_nth)
  finally show ?thesis
    by (simp add: cluster_def components_separated[OF assms(1)] roots)
qed

text \<open>
  C7, as stated, fails: the representatives of two groups can overlap more than
  their members did. With threshold 1/5, the first two detections are joined
  (IoU 1/4) and the third is joined to neither (IoU 7/43), so clustering gives
  their mean and the third; these two have IoU 1/4, and clustering again merges
  them into one detection.
\<close>

theorem cluster_not_idempotent:
  "cluster [det_a1, det_a2, det_b] (1 / 5) = [\<lparr>row = 0, col = 3, scale = 10, q = 2\<rparr>, det_b]
   \<and> cluster [\<lparr>row = 0, col = 3, scale = 10, q = 2\<rparr>, det_b] (1 / 5)
       = [\<lparr>row = 2, col = 3, scale = 10, q = 3\<rparr>]
   \<and> cluster (cluster [det_a1, det_a2, det_b] (1 / 5)) (1 / 5)
       \<noteq> cluster [det_a1, det_a2, det_b] (1 / 5)"
proof -
  have c1: "cluster [det_a1, det_a2, det_b] (1 / 5) = [\<lparr>row = 0, col = 3, scale = 10, q = 2\<rparr>, det_b]"
    by (simp add: eval_cluster)
  have c2: "cluster [\<lparr>row = 0, col = 3, scale = 10, q = 2\<rparr>, det_b] (1 / 5)
       = [\<lparr>row = 2, col = 3, scale = 10, q = 3\<rparr>]"
    by (simp add: eval_cluster)
  show ?thesis unfolding c1 c2 by simp
qed

text \<open>
  C7, amended. Clustering is idempotent on every list whose clustering leaves no
  two representatives joined and none with score 0: then
  \<open>cluster(cluster(D, t), t) = cluster(D, t)\<close>.
\<close>

theorem cluster_idempotent_if_separated:
  assumes "separated t (cluster D t)" and "\<forall>d \<in> set (cluster D t). q d \<noteq> 0"
  shows "cluster (cluster D t) t = cluster D t"
  using assms by (rule cluster_separated)

theorem cluster_idempotent_if_separated_witness:
  "cluster [det_a1, det_a2, det_far] (1 / 5) = [\<lparr>row = 0, col = 3, scale = 10, q = 2\<rparr>, det_far]
   \<and> iou \<lparr>row = 0, col = 3, scale = 10, q = 2\<rparr> det_far = 0
   \<and> cluster (cluster [det_a1, det_a2, det_far] (1 / 5)) (1 / 5)
       = cluster [det_a1, det_a2, det_far] (1 / 5)"
proof -
  have c: "cluster [det_a1, det_a2, det_far] (1 / 5) = [\<lparr>row = 0, col = 3, scale = 10, q = 2\<rparr>, det_far]"
    by (simp add: eval_cluster)
  have i: "iou \<lparr>row = 0, col = 3, scale = 10, q = 2\<rparr> det_far = 0"
    by (simp add: iou_def Let_def)
  have h: "separated (1 / 5) (cluster [det_a1, det_a2, det_far] (1 / 5))
     \<and> (\<forall>d \<in> set (cluster [det_a1, det_a2, det_far] (1 / 5)). q d \<noteq> 0)"
    unfolding c by (simp add: separated_def index_pairs_def joined_def i clamp01_def)
  from c i h cluster_idempotent_if_separated [of "1 / 5" "[det_a1, det_a2, det_far]"]
  show ?thesis by blast
qed

end
